theory Spec2Isabelle
  imports Complex_Main
begin

section \<open>JavaScript values that reach the program\<close>

text \<open>
  The backend's reply is read with \<^verbatim>\<open>response.json()\<close>, so every value the pages handle
  is a JSON value or \<^verbatim>\<open>undefined\<close>. Numbers carry the exact rational value of the double.
  An object keeps its members in source order; a later duplicate key overrides an earlier one.
\<close>

datatype json =
    JNull
  | JBool bool
  | JNum rat
  | JStr string
  | JArr "json list"
  | JObj "(string \<times> json) list"

text \<open>\<^verbatim>\<open>undefined\<close> is \<open>None\<close>.\<close>

type_synonym jsval = "json option"

text \<open>
  A thrown value. Everything the runtime throws here (\<^verbatim>\<open>Error\<close>, \<^verbatim>\<open>TypeError\<close>,
  \<^verbatim>\<open>SyntaxError\<close>, \<^verbatim>\<open>DOMException\<close>) is an instance of \<^verbatim>\<open>Error\<close> and carries a message.
\<close>

datatype thrown = ErrorInstance string | OtherValue

text \<open>
  Texts that the language standard and React leave open: the digits of a number that is not
  an integer below \<open>2\<^sup>5\<^sup>3\<close>, the messages of the two \<^verbatim>\<open>TypeError\<close>s that can arise, and the
  message with which React refuses an object as a child.
\<close>

record engine =
  number_repr :: "rat \<Rightarrow> string"
  null_read_message :: "string \<Rightarrow> string"
  to_primitive_message :: string
  invalid_child_message :: "json \<Rightarrow> string"

text \<open>JavaScript truthiness, as used by \<^verbatim>\<open>!x\<close> and \<^verbatim>\<open>x || y\<close>.\<close>

fun truthy :: "jsval \<Rightarrow> bool" where
  "truthy None = False"
| "truthy (Some JNull) = False"
| "truthy (Some (JBool b)) = b"
| "truthy (Some (JNum v)) = (v \<noteq> 0)"
| "truthy (Some (JStr s)) = (s \<noteq> [])"
| "truthy (Some (JArr xs)) = True"
| "truthy (Some (JObj kvs)) = True"

text \<open>
  Reading one of the properties this program reads (\<^verbatim>\<open>conclusion\<close>, \<^verbatim>\<open>relevance\<close>,
  \<^verbatim>\<open>confidence\<close>, \<^verbatim>\<open>rationale\<close>, \<^verbatim>\<open>tool_trace\<close>, \<^verbatim>\<open>detail\<close>) from a value that is not
  \<^verbatim>\<open>null\<close>: only an object can have it.
\<close>

fun property :: "json \<Rightarrow> string \<Rightarrow> jsval" where
  "property (JObj kvs) name = map_of (rev kvs) name"
| "property _ name = None"

text \<open>\<^verbatim>\<open>data.name\<close>: reading from \<^verbatim>\<open>null\<close> throws a \<^verbatim>\<open>TypeError\<close>.\<close>

definition read_prop :: "engine \<Rightarrow> json \<Rightarrow> string \<Rightarrow> thrown + jsval" where
  "read_prop eng data name =
     (case data of
        JNull \<Rightarrow> Inl (ErrorInstance (null_read_message eng name))
      | _ \<Rightarrow> Inr (property data name))"

text \<open>\<^verbatim>\<open>errorData?.name\<close>: \<^verbatim>\<open>undefined\<close> when the object is \<^verbatim>\<open>null\<close>.\<close>

definition optional_prop :: "json \<Rightarrow> string \<Rightarrow> jsval" where
  "optional_prop data name = (case data of JNull \<Rightarrow> None | _ \<Rightarrow> property data name)"

section \<open>Numbers\<close>

text \<open>
  A JavaScript number is an IEEE binary64 value. \<open>fl\<close> rounds a rational to the nearest
  such value, ties to even, with gradual underflow; overflow cannot occur in this program
  (it subtracts two non-negative finite values and divides finite values by 1000 and 60000).
\<close>

fun bit_length :: "nat \<Rightarrow> nat" where
  "bit_length n = (if n = 0 then 0 else Suc (bit_length (n div 2)))"

declare bit_length.simps [simp del]

definition pow2 :: "int \<Rightarrow> rat" where
  "pow2 e = (if 0 \<le> e then 2 ^ nat e else 1 / 2 ^ nat (- e))"

definition binary_exponent :: "rat \<Rightarrow> int" where
  "binary_exponent x =
     (let (a, b) = quotient_of \<bar>x\<bar>;
          e0 = int (bit_length (nat a)) - int (bit_length (nat b))
      in if pow2 e0 \<le> \<bar>x\<bar> then e0 else e0 - 1)"

definition round_half_even :: "rat \<Rightarrow> int" where
  "round_half_even t =
     (let f = \<lfloor>t\<rfloor>; r = t - of_int f
      in if r < 1 / 2 then f
         else if 1 / 2 < r then f + 1
         else if even f then f else f + 1)"

definition fl :: "rat \<Rightarrow> rat" where
  "fl x =
     (if x = 0 then 0
      else let q = pow2 (max (binary_exponent x - 52) (- 1074))
           in of_int (round_half_even (x / q)) * q)"

text \<open>\<^verbatim>\<open>a - b\<close> and \<^verbatim>\<open>a / b\<close> round their exact result; \<^verbatim>\<open>a % b\<close> is exact and takes the
  sign of \<^verbatim>\<open>a\<close>.\<close>

definition js_sub :: "rat \<Rightarrow> rat \<Rightarrow> rat" where
  "js_sub a b = fl (a - b)"

definition js_div :: "rat \<Rightarrow> rat \<Rightarrow> rat" where
  "js_div a b = fl (a / b)"

definition js_rem :: "rat \<Rightarrow> rat \<Rightarrow> rat" where
  "js_rem a b =
     (let q = a / b; t = (if 0 \<le> q then \<lfloor>q\<rfloor> else \<lceil>q\<rceil>)
      in a - b * of_int t)"

subsection \<open>Numbers as text\<close>

definition digit_char :: "nat \<Rightarrow> char" where
  "digit_char d = ''0123456789'' ! d"

fun decimal :: "nat \<Rightarrow> string" where
  "decimal n = (if n < 10 then [digit_char n] else decimal (n div 10) @ [digit_char (n mod 10)])"

declare decimal.simps [simp del]

text \<open>
  \<^verbatim>\<open>Number::toString\<close> (radix 10), as a template literal applies it: the shortest digits that
  read back as the same number. For an integer of magnitude below \<open>2\<^sup>5\<^sup>3\<close> these are all its
  decimal digits (its neighbours are the next integers); any other number is left to the
  engine.
\<close>

definition Number_toString :: "engine \<Rightarrow> rat \<Rightarrow> string" where
  "Number_toString eng v =
     (let s = (if v < 0 then ''-'' else ''''); x = \<bar>v\<bar>
      in if x = of_int \<lfloor>x\<rfloor> \<and> x < 2 ^ 53 then s @ decimal (nat \<lfloor>x\<rfloor>)
         else number_repr eng v)"

text \<open>
  \<^verbatim>\<open>Number.prototype.toFixed(f)\<close>, following the steps of the language standard: the sign is
  split off, \<open>n\<close> is the integer nearest to \<open>x \<sqdot> 10\<^sup>f\<close> (the larger one of two), and
  \<open>fixed_digits\<close> pads the digits of \<open>n\<close> with zeros to \<open>f + 1\<close> places and puts the point
  before the last \<open>f\<close>.
\<close>

definition fixed_digits :: "nat \<Rightarrow> nat \<Rightarrow> string" where
  "fixed_digits f n =
     (let m = (if n = 0 then ''0'' else decimal n)
      in if f \<noteq> 0 then
           let k = length m;
               m' = (if k \<le> f then replicate (f + 1 - k) CHR ''0'' @ m else m);
               k' = (if k \<le> f then f + 1 else k)
           in take (k' - f) m' @ ''.'' @ drop (k' - f) m'
         else m)"

definition toFixed :: "engine \<Rightarrow> rat \<Rightarrow> nat \<Rightarrow> string" where
  "toFixed eng x0 f =
     (let s = (if x0 < 0 then ''-'' else ''''); x = \<bar>x0\<bar>
      in if 10 ^ 21 \<le> x then s @ Number_toString eng x
         else s @ fixed_digits f (nat \<lfloor>x * 10 ^ f + 1 / 2\<rfloor>))"

text \<open>
  \<^verbatim>\<open>ToString\<close> of a JSON value, as \<^verbatim>\<open>new Error(v)\<close> applies it to its argument. An array is
  joined with commas, \<^verbatim>\<open>null\<close> elements giving the empty text. A parsed object answers
  \<^verbatim>\<open>[object Object]\<close>, unless it has a member named \<^verbatim>\<open>toString\<close>: that member shadows the
  inherited method and is not callable, and the conversion throws a \<^verbatim>\<open>TypeError\<close>.
\<close>

fun ToString :: "engine \<Rightarrow> json \<Rightarrow> thrown + string"
  and array_join :: "engine \<Rightarrow> json list \<Rightarrow> thrown + string" where
  "ToString eng JNull = Inr ''null''"
| "ToString eng (JBool b) = Inr (if b then ''true'' else ''false'')"
| "ToString eng (JNum v) = Inr (Number_toString eng v)"
| "ToString eng (JStr s) = Inr s"
| "ToString eng (JArr xs) = array_join eng xs"
| "ToString eng (JObj kvs) =
     (if ''toString'' \<in> fst ` set kvs then Inl (ErrorInstance (to_primitive_message eng))
      else Inr ''[object Object]'')"
| "array_join eng [] = Inr ''''"
| "array_join eng (x # xs) =
     (case (if x = JNull then Inr '''' else ToString eng x) of
        Inl e \<Rightarrow> Inl e
      | Inr s \<Rightarrow>
          (if xs = [] then Inr s
           else case array_join eng xs of
                  Inl e \<Rightarrow> Inl e
                | Inr r \<Rightarrow> Inr (s @ '','' @ r)))"

section \<open>The elapsed-time text of \<open>handleAnalyze\<close>\<close>

text \<open>The three-way branch on \<^verbatim>\<open>runtimeMs\<close> that computes \<^verbatim>\<open>runtimeDisplay\<close>.\<close>

definition runtimeDisplay :: "engine \<Rightarrow> rat \<Rightarrow> string" where
  "runtimeDisplay eng runtimeMs =
     (if runtimeMs < 1000 then toFixed eng runtimeMs 0 @ ''ms''
      else if runtimeMs < 60000 then toFixed eng (js_div runtimeMs 1000) 2 @ ''s''
      else
        let minutes = \<lfloor>js_div runtimeMs 60000\<rfloor>;
            seconds = toFixed eng (js_div (js_rem runtimeMs 60000) 1000) 0
        in Number_toString eng (of_int minutes) @ ''m '' @ seconds @ ''s'')"

section \<open>The analysis context (\<^verbatim>\<open>AnalysisContext.tsx\<close>)\<close>

text \<open>
  \<^verbatim>\<open>AnalysisResult\<close>. The interface declares strings and numbers, but the fields are filled
  from the parsed reply without a check, so at run time they hold whatever the reply held.
\<close>

record AnalysisResult =
  compound :: string
  conclusion :: jsval
  rationale :: jsval
  runtime :: string
  confidence :: jsval
  relevance :: jsval
  toolTrace :: jsval

text \<open>
  The state of \<^verbatim>\<open>AnalysisProvider\<close>: one slot, \<^verbatim>\<open>null\<close> at first. The provider hands
  \<^verbatim>\<open>{ result, setResult }\<close> to its children; \<open>setResult\<close> is the state setter.
\<close>

record AnalysisContextType =
  result :: "AnalysisResult option"

definition AnalysisProvider :: AnalysisContextType where
  "AnalysisProvider = \<lparr>result = None\<rparr>"

definition setResult :: "AnalysisResult \<Rightarrow> AnalysisContextType \<Rightarrow> AnalysisContextType" where
  "setResult r ctx = ctx\<lparr>result := Some r\<rparr>"

text \<open>
  \<^verbatim>\<open>useContext\<close>: the value of the nearest enclosing provider (the list holds the enclosing
  providers' values, innermost first), or the default of \<^verbatim>\<open>createContext\<close>, here
  \<^verbatim>\<open>undefined\<close>.
\<close>

definition useContext :: "'a list \<Rightarrow> 'a option" where
  "useContext enclosing = (case enclosing of [] \<Rightarrow> None | v # _ \<Rightarrow> Some v)"

definition useAnalysis :: "AnalysisContextType list \<Rightarrow> thrown + AnalysisContextType" where
  "useAnalysis enclosing =
     (case useContext enclosing of
        None \<Rightarrow> Inl (ErrorInstance ''useAnalysis must be used within an AnalysisProvider'')
      | Some ctx \<Rightarrow> Inr ctx)"

section \<open>The submit page (\<^verbatim>\<open>AnalyzePage\<close>)\<close>

text \<open>What \<^verbatim>\<open>fetch\<close> is called with.\<close>

record request =
  url :: string
  http_method :: string
  headers :: "(string \<times> string) list"
  body :: json

text \<open>
  What comes back. \<open>json_result\<close> is the outcome of \<^verbatim>\<open>response.json()\<close>: the parsed body, or
  the error it rejects with when the body is not JSON. \<^verbatim>\<open>response.ok\<close> is true for a status
  from 200 to 299.
\<close>

record response =
  status :: nat
  json_result :: "thrown + json"

definition ok :: "response \<Rightarrow> bool" where
  "ok r = (200 \<le> status r \<and> status r \<le> 299)"

datatype fetch_result = Rejected thrown | Resolved response

datatype console_entry =
    ConsoleLog string "(string \<times> jsval) list"
  | ConsoleError string thrown

text \<open>
  A call of \<open>handleAnalyze\<close> that is waiting for its reply. The closure holds the compound
  name of the render in which the button was clicked, and the start time.
\<close>

record pending_call =
  submitted :: string
  startTime :: rat

text \<open>
  Everything the page reads or changes: its two state variables, the context it got from
  \<open>useAnalysis\<close>, the router's current path, the toasts shown, the requests sent, the
  console, and the calls awaiting a reply.
\<close>

record page =
  isLoading :: bool
  drugName :: string
  store :: AnalysisContextType
  path :: string
  toasts :: "string list"
  requests :: "request list"
  console :: "console_entry list"
  in_flight :: "pending_call list"

definition push :: "string \<Rightarrow> page \<Rightarrow> page" where
  "push href s = s\<lparr>path := href\<rparr>"

text \<open>
  \<open>handleAnalyze\<close> up to its first \<^verbatim>\<open>await\<close>: the busy flag is set, the clock is read and
  the request is sent. \<open>backend_url\<close> is \<^verbatim>\<open>process.env.NEXT_PUBLIC_BACKEND_URL\<close>, which a
  template literal prints as \<^verbatim>\<open>undefined\<close> when it is not set.
\<close>

definition analyze_request :: "string option \<Rightarrow> string \<Rightarrow> request" where
  "analyze_request backend_url name =
     \<lparr>url = (case backend_url of None \<Rightarrow> ''undefined'' | Some u \<Rightarrow> u) @ ''/analyze_fibrosis'',
      http_method = ''POST'',
      headers = [(''Content-Type'', ''application/json'')],
      body = JObj [(''drug_name'', JStr name)]\<rparr>"

definition handleAnalyze_dispatch :: "string option \<Rightarrow> rat \<Rightarrow> page \<Rightarrow> page" where
  "handleAnalyze_dispatch backend_url now s =
     s\<lparr>isLoading := True,
       requests := requests s @ [analyze_request backend_url (drugName s)],
       in_flight := in_flight s @ [\<lparr>submitted = drugName s, startTime = now\<rparr>]\<rparr>"

text \<open>
  The rest of the \<^verbatim>\<open>try\<close> block, run when the reply has arrived. \<open>Inl\<close> is a throw; nothing
  is changed before any of the points that can throw.
\<close>

definition handleAnalyze_try ::
  "engine \<Rightarrow> fetch_result \<Rightarrow> rat \<Rightarrow> pending_call \<Rightarrow> page \<Rightarrow> thrown + page" where
  "handleAnalyze_try eng fetched now call s =
     (case fetched of
        Rejected e \<Rightarrow> Inl e
      | Resolved response \<Rightarrow>
          if \<not> ok response then
            let errorData = (case json_result response of Inl _ \<Rightarrow> JNull | Inr d \<Rightarrow> d);
                detail = optional_prop errorData ''detail'';
                message = (if truthy detail then the detail else JStr ''Failed to analyze compound'')
            in (case ToString eng message of
                  Inl e \<Rightarrow> Inl e
                | Inr m \<Rightarrow> Inl (ErrorInstance m))
          else
            (case json_result response of
              Inl e \<Rightarrow> Inl e
            | Inr data \<Rightarrow>
                (case read_prop eng data ''conclusion'' of
                   Inl e \<Rightarrow> Inl e
                 | Inr _ \<Rightarrow>
                     let s1 = s\<lparr>console := console s @
                                [ConsoleLog ''Analysis Response:''
                                   [(''conclusion'', property data ''conclusion''),
                                    (''relevance'', property data ''relevance''),
                                    (''confidence'', property data ''confidence''),
                                    (''rationale'', property data ''rationale''),
                                    (''tool_trace'', property data ''tool_trace'')]]\<rparr>;
                         endTime = now;
                         runtimeMs = js_sub endTime (startTime call);
                         s2 = s1\<lparr>store := setResult
                                 \<lparr>compound = submitted call,
                                  conclusion = property data ''conclusion'',
                                  rationale = property data ''rationale'',
                                  runtime = runtimeDisplay eng runtimeMs,
                                  confidence = property data ''confidence'',
                                  relevance = property data ''relevance'',
                                  toolTrace = property data ''tool_trace''\<rparr> (store s1)\<rparr>
                     in Inr (push ''/analyze/result'' s2))))"

text \<open>\<^verbatim>\<open>error instanceof Error ? error.message : "An unexpected error occurred"\<close>\<close>

definition error_text :: "thrown \<Rightarrow> string" where
  "error_text error =
     (case error of ErrorInstance m \<Rightarrow> m | OtherValue \<Rightarrow> ''An unexpected error occurred'')"

text \<open>
  The continuation of the \<open>i\<close>-th waiting call: the \<^verbatim>\<open>try\<close> block, the \<^verbatim>\<open>catch\<close> clause when
  it threw, and the \<^verbatim>\<open>finally\<close> clause in both cases.
\<close>

definition handleAnalyze_settle :: "engine \<Rightarrow> fetch_result \<Rightarrow> rat \<Rightarrow> nat \<Rightarrow> page \<Rightarrow> page" where
  "handleAnalyze_settle eng fetched now i s =
     (if i < length (in_flight s) then
        let call = in_flight s ! i;
            s0 = s\<lparr>in_flight := take i (in_flight s) @ drop (Suc i) (in_flight s)\<rparr>;
            s1 = (case handleAnalyze_try eng fetched now call s0 of
                    Inr s' \<Rightarrow> s'
                  | Inl error \<Rightarrow>
                      s0\<lparr>console := console s0 @ [ConsoleError ''Error:'' error],
                         toasts := toasts s0 @ [error_text error]\<rparr>)
        in s1\<lparr>isLoading := False\<rparr>
      else s)"

text \<open>
  One whole run of \<open>handleAnalyze\<close> with nothing else happening in between. The world
  supplies the two clock readings and the outcome of \<^verbatim>\<open>fetch\<close>.
\<close>

record world =
  backend_url :: "string option"
  clock_start :: rat
  clock_end :: rat
  fetched :: fetch_result

definition handleAnalyze :: "engine \<Rightarrow> world \<Rightarrow> page \<Rightarrow> page" where
  "handleAnalyze eng w s =
     (let s1 = handleAnalyze_dispatch (backend_url w) (clock_start w) s
      in handleAnalyze_settle eng (fetched w) (clock_end w) (length (in_flight s1) - 1) s1)"

text \<open>
  The button: \<^verbatim>\<open>disabled={isLoading || !drugName}\<close>, \<^verbatim>\<open>onClick={handleAnalyze}\<close>. A disabled
  button does not fire its handler. The input's \<^verbatim>\<open>onChange\<close> stores the text. The page
  is taken to be rendered anew after every event, so the attribute is computed from the
  state the event finds. An event is a change of the input, a click on the button (with the
  clock reading), or the arrival of the reply to the \<open>i\<close>-th waiting call (with the clock
  reading).
\<close>

definition button_disabled :: "page \<Rightarrow> bool" where
  "button_disabled s = (isLoading s \<or> \<not> truthy (Some (JStr (drugName s))))"

datatype event =
    Change string
  | Click rat
  | Reply nat fetch_result rat

definition step :: "engine \<Rightarrow> string option \<Rightarrow> event \<Rightarrow> page \<Rightarrow> page" where
  "step eng base ev s =
     (case ev of
        Change v \<Rightarrow> s\<lparr>drugName := v\<rparr>
      | Click now \<Rightarrow> if button_disabled s then s else handleAnalyze_dispatch base now s
      | Reply i reply now \<Rightarrow> handleAnalyze_settle eng reply now i s)"

definition run :: "engine \<Rightarrow> string option \<Rightarrow> event list \<Rightarrow> page \<Rightarrow> page" where
  "run eng base evs s = fold (step eng base) evs s"

text \<open>The page as first rendered inside a provider whose context is \<open>ctx\<close>.\<close>

definition AnalyzePage :: "AnalysisContextType \<Rightarrow> string \<Rightarrow> page" where
  "AnalyzePage ctx href =
     \<lparr>isLoading = False, drugName = [], store = ctx, path = href,
      toasts = [], requests = [], console = [], in_flight = []\<rparr>"

section \<open>The result page (\<^verbatim>\<open>result/page.tsx\<close>)\<close>

text \<open>
  What \<open>formatToolCall\<close> returns: a value rendered as it is, or a \<^verbatim>\<open>ul\<close> element whose
  \<^verbatim>\<open>li\<close> children carry a key and one element of the trace each.
\<close>

datatype li = Li (key: nat) (child: json)

datatype tool_call = Plain json | Ul "li list"

definition formatToolCall :: "jsval \<Rightarrow> tool_call" where
  "formatToolCall trace =
     (if \<not> truthy trace then Plain (JStr ''No tool call information available.'')
      else case the trace of
             JArr xs \<Rightarrow>
               if length xs = 0 then Plain (JStr ''No tool call information available.'')
               else Ul (map (\<lambda>(idx, t). Li idx t) (enumerate 0 xs))
           | v \<Rightarrow> Plain v)"

text \<open>
  A value placed as a child of an element. React shows a string or a number, shows nothing
  for a boolean, \<^verbatim>\<open>null\<close> or \<^verbatim>\<open>undefined\<close>, and takes an array as a list of children; a plain
  object it refuses by throwing. Laying out a list of children it refuses the first object
  among them at once, and descends into the arrays among them, in order, afterwards.
  \<open>refused_child\<close> is the object that is refused, if there is one.
\<close>

fun refused_child :: "json \<Rightarrow> json option"
  and refused_among :: "json list \<Rightarrow> json option"
  and refused_below :: "json list \<Rightarrow> json option" where
  "refused_child (JObj kvs) = Some (JObj kvs)"
| "refused_child (JArr xs) = refused_among xs"
| "refused_child JNull = None"
| "refused_child (JBool b) = None"
| "refused_child (JNum v) = None"
| "refused_child (JStr s) = None"
| "refused_among xs =
     (case find (\<lambda>x. case x of JObj _ \<Rightarrow> True | _ \<Rightarrow> False) xs of
        Some v \<Rightarrow> Some v
      | None \<Rightarrow> refused_below xs)"
| "refused_below [] = None"
| "refused_below (x # xs) =
     (case (case x of JArr ys \<Rightarrow> refused_among ys | _ \<Rightarrow> None) of
        Some v \<Rightarrow> Some v
      | None \<Rightarrow> refused_below xs)"

definition child_throws :: "engine \<Rightarrow> jsval \<Rightarrow> thrown option" where
  "child_throws eng v =
     (case v of
        None \<Rightarrow> None
      | Some j \<Rightarrow> map_option (\<lambda>obj. ErrorInstance (invalid_child_message eng obj)) (refused_child j))"

text \<open>
  \<open>ScoreBar\<close>: \<open>getColor\<close> compares the value with 80 and the style prints it in a template
  literal; both convert an array or an object to a primitive, which throws where
  \<open>ToString\<close> does. After that the value is placed as a child, before the text \<^verbatim>\<open>%\<close>.
\<close>

definition ScoreBar_throws :: "engine \<Rightarrow> jsval \<Rightarrow> thrown option" where
  "ScoreBar_throws eng v =
     (case v of
        None \<Rightarrow> None
      | Some j \<Rightarrow>
          (case ToString eng j of
             Inl e \<Rightarrow> Some e
           | Inr _ \<Rightarrow> child_throws eng (Some j)))"

text \<open>The items of the \<^verbatim>\<open>ul\<close> are laid out one after the other, each with its one child.\<close>

fun tool_call_throws :: "engine \<Rightarrow> tool_call \<Rightarrow> thrown option" where
  "tool_call_throws eng (Plain v) = child_throws eng (Some v)"
| "tool_call_throws eng (Ul items) =
     (case List.map_filter (\<lambda>item. child_throws eng (Some (child item))) items of
        [] \<Rightarrow> None
      | e # _ \<Rightarrow> Some e)"

text \<open>The values \<open>ResultContent\<close> places in the element it returns, by their places.\<close>

record result_view =
  shown_compound :: string
  shown_conclusion :: jsval
  shown_relevance :: jsval
  shown_confidence :: jsval
  shown_tool_call :: tool_call
  shown_rationale :: jsval
  shown_runtime :: string

text \<open>
  \<open>ResultContent\<close>: given the enclosing providers and the router's path, what is rendered
  (\<open>None\<close> is \<^verbatim>\<open>null\<close>) and the path afterwards. With a stored result the element is laid
  out from top to bottom: the conclusion, the two score bars, the tool call, the rationale;
  the first of them that throws ends the rendering with that error.
\<close>

definition ResultContent ::
  "engine \<Rightarrow> AnalysisContextType list \<Rightarrow> string \<Rightarrow>
     thrown + (result_view option \<times> string)" where
  "ResultContent eng enclosing href =
     (case useAnalysis enclosing of
        Inl e \<Rightarrow> Inl e
      | Inr ctx \<Rightarrow>
          (case result ctx of
             None \<Rightarrow> Inr (None, ''/analyze'')
           | Some r \<Rightarrow>
               (case List.map_filter (\<lambda>t. t)
                       [child_throws eng (conclusion r),
                        ScoreBar_throws eng (relevance r),
                        ScoreBar_throws eng (confidence r),
                        tool_call_throws eng (formatToolCall (toolTrace r)),
                        child_throws eng (rationale r)] of
                  e # _ \<Rightarrow> Inl e
                | [] \<Rightarrow>
                    Inr (Some \<lparr>shown_compound = compound r,
                               shown_conclusion = conclusion r,
                               shown_relevance = relevance r,
                               shown_confidence = confidence r,
                               shown_tool_call = formatToolCall (toolTrace r),
                               shown_rationale = rationale r,
                               shown_runtime = runtime r\<rparr>, href))))"

section \<open>Notions used to state the properties\<close>

text \<open>
  What the \<^verbatim>\<open>try\<close> block of a whole run throws, if it throws: the failed outcome of the
  submission. Its message, as the \<^verbatim>\<open>catch\<close> clause reads it, is \<open>error_text\<close>.
\<close>

definition failure :: "engine \<Rightarrow> world \<Rightarrow> page \<Rightarrow> thrown option" where
  "failure eng w s =
     (case handleAnalyze_try eng (fetched w) (clock_end w)
             \<lparr>submitted = drugName s, startTime = clock_start w\<rparr> s of
        Inl e \<Rightarrow> Some e
      | Inr _ \<Rightarrow> None)"

text \<open>
  The world in which \<^verbatim>\<open>fetch\<close> resolves with the given status and \<^verbatim>\<open>response.json()\<close>
  settles as given.
\<close>

definition reply :: "nat \<Rightarrow> thrown + json \<Rightarrow> world \<Rightarrow> world" where
  "reply code parsed w = w\<lparr>fetched := Resolved \<lparr>status = code, json_result = parsed\<rparr>\<rparr>"

text \<open>At most one call is waiting, and the busy flag says whether one is.\<close>

definition one_in_flight :: "page \<Rightarrow> bool" where
  "one_in_flight s = (length (in_flight s) \<le> 1 \<and> (isLoading s \<longleftrightarrow> in_flight s \<noteq> []))"

text \<open>
  The elapsed-time text as the specification words it, in exact arithmetic on the duration.
  \<open>nearest_integer\<close> is rounding to the nearest integer, a half going up. \<open>hundredths\<close>
  writes a number of hundredths with two decimal places, and \<open>nearest_hundredths\<close> lists
  the numbers of hundredths nearest to a value: one, or the two neighbours of a value that
  lies halfway. \<open>spec_format duration text\<close> says that the text is the one the
  specification gives for the duration: below 1000 the nearest integer and \<^verbatim>\<open>ms\<close>; below
  60000 the seconds to two decimal places and \<^verbatim>\<open>s\<close>; otherwise \<open>floor (duration / 60000)\<close>,
  \<^verbatim>\<open>m\<close>, a space, the nearest integer to \<open>(duration mod 60000) / 1000\<close> and \<^verbatim>\<open>s\<close>.
\<close>

definition nearest_integer :: "rat \<Rightarrow> int" where
  "nearest_integer x = \<lfloor>x + 1 / 2\<rfloor>"

definition hundredths :: "nat \<Rightarrow> string" where
  "hundredths h =
     decimal (h div 100) @ ''.'' @ [digit_char (h div 10 mod 10), digit_char (h mod 10)]"

definition nearest_hundredths :: "rat \<Rightarrow> nat list" where
  "nearest_hundredths y =
     filter (\<lambda>h. \<bar>of_nat h / 100 - y\<bar> \<le> 1 / 200) [nat \<lfloor>y * 100\<rfloor>, nat \<lfloor>y * 100\<rfloor> + 1]"

definition spec_format :: "rat \<Rightarrow> string \<Rightarrow> bool" where
  "spec_format duration text =
     (if duration < 1000 then text = decimal (nat (nearest_integer duration)) @ ''ms''
      else if duration < 60000 then
        text \<in> set (map (\<lambda>h. hundredths h @ ''s'') (nearest_hundredths (duration / 1000)))
      else
        text =
          decimal (nat \<lfloor>duration / 60000\<rfloor>) @ ''m '' @
          decimal (nat (nearest_integer
            ((duration - 60000 * of_int \<lfloor>duration / 60000\<rfloor>) / 1000))) @ ''s'')"

text \<open>
  The numbers a program can hold are the binary64 values: those that rounding leaves as
  they are.
\<close>

definition binary64 :: "rat \<Rightarrow> bool" where
  "binary64 x = (fl x = x)"

text \<open>
  Two devices of the proofs: the spacing of the binary64 values around \<open>x\<close>, and the text of
  \<open>runtimeDisplay\<close> with the digits of \<open>toFixed\<close> written out and the quotients still rounded.
\<close>

definition quantum :: "rat \<Rightarrow> rat" where
  "quantum x = pow2 (max (binary_exponent x - 52) (- 1074))"

definition two_decimals :: "rat \<Rightarrow> string" where
  "two_decimals x = hundredths (nat (nearest_integer (x * 100)))"

definition rounded_format :: "rat \<Rightarrow> string" where
  "rounded_format duration =
     (if duration < 1000 then decimal (nat (nearest_integer duration)) @ ''ms''
      else if duration < 60000 then two_decimals (js_div duration 1000) @ ''s''
      else decimal (nat \<lfloor>js_div duration 60000\<rfloor>) @ ''m '' @
           decimal (nat (nearest_integer (js_div (js_rem duration 60000) 1000))) @ ''s'')"

subsection \<open>Values for the examples\<close>

text \<open>
  An engine with the messages of V8 and the opening words of React's; \<open>number_repr\<close> is
  not used by the examples.
\<close>

definition some_engine :: engine where
  "some_engine =
     \<lparr>number_repr = (\<lambda>v. ''?''),
      null_read_message =
        (\<lambda>name. ''Cannot read properties of null (reading '' @ [CHR 0x27] @ name @
                  [CHR 0x27] @ '')''),
      to_primitive_message = ''Cannot convert object to primitive value'',
      invalid_child_message = (\<lambda>obj. ''Objects are not valid as a React child'')\<rparr>"

definition offline :: world where
  "offline = \<lparr>backend_url = None, clock_start = 0, clock_end = 5,
              fetched = Rejected (ErrorInstance ''Failed to fetch'')\<rparr>"


definition typed :: "string \<Rightarrow> page" where
  "typed name = (AnalyzePage AnalysisProvider ''/analyze'')\<lparr>drugName := name\<rparr>"

definition report :: json where
  "report = JObj [(''conclusion'', JStr ''Reduces fibrosis''), (''relevance'', JNum 80),
                  (''confidence'', JNum 65), (''rationale'', JStr ''BET inhibition''),
                  (''tool_trace'', JArr [JStr ''pubmed_search(JQ1)''])]"

section \<open>Rounding to binary64\<close>

lemma bit_length_bounds: "0 < n \<Longrightarrow> 2 ^ (bit_length n - 1) \<le> n \<and> n < 2 ^ bit_length n"
proof (induction n rule: bit_length.induct)
  case (1 n)
  show ?case
  proof (cases "n div 2 = 0")
    case True
    with "1.prems" have "n = 1" by (simp add: div_eq_0_iff) 
    then show ?thesis by (simp add: bit_length.simps)
  next
    case False
    with "1.prems" "1.IH" have ih: "2 ^ (bit_length (n div 2) - 1) \<le> n div 2" "n div 2 < 2 ^ bit_length (n div 2)"
      by simp_all
    from False have pos: "0 < bit_length (n div 2)"
      by (simp add: bit_length.simps [of "n div 2"])
    have bl: "bit_length n = Suc (bit_length (n div 2))"
      using "1.prems" by (simp add: bit_length.simps [of n])
    from pos obtain k where k: "bit_length (n div 2) = Suc k"
      by (cases "bit_length (n div 2)") simp_all
    from ih k have "2 * 2 ^ k \<le> 2 * (n div 2)" by simp
    also have "\<dots> \<le> n" by simp
    finally have lo: "2 ^ (bit_length n - 1) \<le> n" by (simp add: bl k)
    from ih(2) have "n div 2 + 1 \<le> 2 ^ bit_length (n div 2)" by simp
    then have "2 * (n div 2) + 2 \<le> 2 * 2 ^ bit_length (n div 2)" by simp
    moreover have "n < 2 * (n div 2) + 2" by presburger
    ultimately have hi: "n < 2 ^ bit_length n" by (simp add: bl)
    from lo hi show ?thesis ..
  qed
qed

lemma pow2_power_int: "pow2 e = power_int 2 e"
  by (simp add: pow2_def power_int_def power_inverse [symmetric] inverse_eq_divide power_one_over)

lemma pow2_pos: "0 < pow2 e"
  by (simp add: pow2_power_int)

lemma pow2_mono: "i \<le> j \<Longrightarrow> pow2 i \<le> pow2 j"
  by (simp add: pow2_power_int power_int_increasing)

lemma pow2_less_iff: "pow2 i < pow2 j \<longleftrightarrow> i < j"
proof
  assume "pow2 i < pow2 j"
  show "i < j"
  proof (rule ccontr)
    assume "\<not> i < j"
    then have "pow2 j \<le> pow2 i" by (simp add: pow2_mono)
    with \<open>pow2 i < pow2 j\<close> show False by simp
  qed
next
  assume "i < j"
  then show "pow2 i < pow2 j"
    by (simp add: pow2_power_int power_int_strict_increasing)
qed

lemma pow2_diff: "pow2 (i - j) = pow2 i / pow2 j"
  by (simp add: pow2_power_int power_int_diff)

lemma pow2_nat: "pow2 (int k) = 2 ^ k"
  by (simp add: pow2_def)

lemma binary_exponent_le:
  assumes "x \<noteq> 0"
  shows "pow2 (binary_exponent x) \<le> \<bar>x\<bar>"
proof -
  obtain a b where ab: "quotient_of \<bar>x\<bar> = (a, b)" by (cases "quotient_of \<bar>x\<bar>")
  then have b: "0 < b" and x: "\<bar>x\<bar> = of_int a / of_int b"
    by (auto simp: quotient_of_denom_pos quotient_of_div)
  from assms have "0 < \<bar>x\<bar>" by simp
  with x b have a: "0 < a"
    by (simp add: zero_less_divide_iff)
  let ?e0 = "int (bit_length (nat a)) - int (bit_length (nat b))"
  show ?thesis
  proof (cases "pow2 ?e0 \<le> \<bar>x\<bar>")
    case True
    then show ?thesis by (simp add: binary_exponent_def ab)
  next
    case False
    then have e: "binary_exponent x = ?e0 - 1" by (simp add: binary_exponent_def ab)
    from a have "2 ^ (bit_length (nat a) - 1) \<le> nat a"
      using bit_length_bounds [of "nat a"] by simp
    then have "(2::rat) ^ (bit_length (nat a) - 1) \<le> of_nat (nat a)"
      by (metis of_nat_le_iff of_nat_numeral of_nat_power)
    with a have lo: "(2::rat) ^ (bit_length (nat a) - 1) \<le> of_int a" by simp
    from b have "nat b < 2 ^ bit_length (nat b)"
      using bit_length_bounds [of "nat b"] by simp
    then have "of_nat (nat b) < (2::rat) ^ bit_length (nat b)"
      by (metis of_nat_less_iff of_nat_numeral of_nat_power)
    with b have hi: "of_int b < (2::rat) ^ bit_length (nat b)" by simp
    from a have la: "0 < bit_length (nat a)"
      by (simp add: bit_length.simps [of "nat a"])
    then have "?e0 - 1 = int (bit_length (nat a) - 1) - int (bit_length (nat b))"
      by simp
    then have "pow2 (?e0 - 1) = 2 ^ (bit_length (nat a) - 1) / 2 ^ bit_length (nat b)"
      by (simp only: pow2_diff pow2_nat)
    also have "\<dots> \<le> of_int a / 2 ^ bit_length (nat b)"
      using lo by (simp add: divide_right_mono)
    also have "\<dots> \<le> of_int a / of_int b"
      using hi a b by (simp add: frac_le)
    finally show ?thesis by (simp add: e x)
  qed
qed

lemma binary_exponent_less:
  assumes "x \<noteq> 0"
  shows "\<bar>x\<bar> < pow2 (binary_exponent x + 1)"
proof -
  obtain a b where ab: "quotient_of \<bar>x\<bar> = (a, b)" by (cases "quotient_of \<bar>x\<bar>")
  then have b: "0 < b" and x: "\<bar>x\<bar> = of_int a / of_int b"
    by (auto simp: quotient_of_denom_pos quotient_of_div)
  from assms have "0 < \<bar>x\<bar>" by simp
  with x b have a: "0 < a"
    by (simp add: zero_less_divide_iff)
  let ?e0 = "int (bit_length (nat a)) - int (bit_length (nat b))"
  show ?thesis
  proof (cases "pow2 ?e0 \<le> \<bar>x\<bar>")
    case False
    then show ?thesis by (simp add: binary_exponent_def ab)
  next
    case True
    then have e: "binary_exponent x = ?e0" by (simp add: binary_exponent_def ab)
    from a have "nat a < 2 ^ bit_length (nat a)"
      using bit_length_bounds [of "nat a"] by simp
    then have "of_nat (nat a) < (2::rat) ^ bit_length (nat a)"
      by (metis of_nat_less_iff of_nat_numeral of_nat_power)
    with a have hi: "of_int a < (2::rat) ^ bit_length (nat a)" by simp
    from b have "2 ^ (bit_length (nat b) - 1) \<le> nat b"
      using bit_length_bounds [of "nat b"] by simp
    then have "(2::rat) ^ (bit_length (nat b) - 1) \<le> of_nat (nat b)"
      by (metis of_nat_le_iff of_nat_numeral of_nat_power)
    with b have lo: "(2::rat) ^ (bit_length (nat b) - 1) \<le> of_int b" by simp
    from b have lb: "0 < bit_length (nat b)"
      by (simp add: bit_length.simps [of "nat b"])
    have "(of_int a :: rat) / of_int b < 2 ^ bit_length (nat a) / of_int b"
      using hi b by (simp add: divide_strict_right_mono)
    also have "\<dots> \<le> 2 ^ bit_length (nat a) / 2 ^ (bit_length (nat b) - 1)"
      using lo by (simp add: frac_le)
    also from lb have "\<dots> = pow2 (?e0 + 1)"
    proof -
      from lb have "?e0 + 1 = int (bit_length (nat a)) - int (bit_length (nat b) - 1)"
        by simp
      then show ?thesis by (simp only: pow2_diff pow2_nat)
    qed
    finally show ?thesis by (simp add: e x)
  qed
qed

lemma round_half_even_error: "\<bar>of_int (round_half_even t) - t\<bar> \<le> 1 / 2"
proof -
  have "of_int \<lfloor>t\<rfloor> \<le> t" "t < of_int \<lfloor>t\<rfloor> + 1" by linarith+
  then show ?thesis
    by (auto simp: round_half_even_def Let_def abs_le_iff)
qed

lemma round_half_even_le: "t \<le> of_int N \<Longrightarrow> round_half_even t \<le> N"
proof -
  assume "t \<le> of_int N"
  then have f: "\<lfloor>t\<rfloor> \<le> N" by (simp add: floor_le_iff) 
  show ?thesis
  proof (cases "\<lfloor>t\<rfloor> = N")
    case True
    with \<open>t \<le> of_int N\<close> have "t = of_int N" by linarith
    then show ?thesis by (simp add: round_half_even_def)
  next
    case False
    with f have "\<lfloor>t\<rfloor> + 1 \<le> N" by simp
    then show ?thesis by (auto simp: round_half_even_def Let_def)
  qed
qed

lemma round_half_even_ge: "of_int N \<le> t \<Longrightarrow> N \<le> round_half_even t"
proof -
  assume "of_int N \<le> t"
  then have "N \<le> \<lfloor>t\<rfloor>" by (simp add: le_floor_iff)
  then show ?thesis by (auto simp: round_half_even_def Let_def)
qed

lemma fl_quantum: "x \<noteq> 0 \<Longrightarrow> fl x = of_int (round_half_even (x / quantum x)) * quantum x"
  by (simp add: fl_def quantum_def Let_def)

lemma quantum_pos: "0 < quantum x"
  by (simp add: quantum_def pow2_pos)

lemma fl_error: "\<bar>fl x - x\<bar> \<le> quantum x / 2"
proof (cases "x = 0")
  case True
  then show ?thesis using quantum_pos [of x] by (simp add: fl_def)
next
  case False
  let ?q = "quantum x"
  let ?R = "of_int (round_half_even (x / ?q)) :: rat"
  have q: "0 < ?q" by (rule quantum_pos)
  have "\<bar>?R - x / ?q\<bar> \<le> 1 / 2" by (rule round_half_even_error)
  then have "\<bar>?R - x / ?q\<bar> * ?q \<le> 1 / 2 * ?q"
    using q by (simp add: mult_right_mono)
  moreover have "(?R - x / ?q) * ?q = ?R * ?q - x"
    using q by (simp add: field_simps)
  then have "\<bar>?R - x / ?q\<bar> * ?q = \<bar>?R * ?q - x\<bar>"
    using q abs_mult [of "?R - x / ?q" ?q] by simp
  ultimately show ?thesis using False by (simp add: fl_quantum)
qed

lemma quantum_le:
  assumes "x \<noteq> 0"
  shows "quantum x \<le> max (\<bar>x\<bar> / 2 ^ 52) (pow2 (- 1074))"
proof (cases "binary_exponent x - 52 \<le> - 1074")
  case True
  then show ?thesis by (simp add: quantum_def max_def)
next
  case False
  then have "quantum x = pow2 (binary_exponent x - 52)" by (simp add: quantum_def max_def)
  also have "\<dots> = pow2 (binary_exponent x) / 2 ^ 52"
    using pow2_diff [of "binary_exponent x" 52] pow2_nat [of 52] by simp
  also have "\<dots> \<le> \<bar>x\<bar> / 2 ^ 52"
    using binary_exponent_le [OF assms] by (simp add: divide_right_mono)
  finally show ?thesis by simp
qed

lemma fl_nonneg: "0 \<le> x \<Longrightarrow> 0 \<le> fl x"
proof (cases "x = 0")
  case True
  then show ?thesis by (simp add: fl_def)
next
  case False
  assume "0 \<le> x"
  with quantum_pos [of x] have "of_int 0 \<le> x / quantum x" by simp
  then have "0 \<le> round_half_even (x / quantum x)" by (rule round_half_even_ge)
  with quantum_pos [of x] False show ?thesis by (simp add: fl_quantum)
qed

text \<open>A bound that is a multiple of the quantum is respected by the rounding.\<close>

lemma fl_le:
  assumes "x \<noteq> 0" and "x \<le> c" and "c = of_int N * quantum x"
  shows "fl x \<le> c"
proof -
  have q: "0 < quantum x" by (rule quantum_pos)
  from assms(2,3) q have "x / quantum x \<le> of_int N"
    by (simp add: pos_divide_le_eq)
  then have "round_half_even (x / quantum x) \<le> N" by (rule round_half_even_le)
  then have "(of_int (round_half_even (x / quantum x)) :: rat) \<le> of_int N" by simp
  with q assms(1,3) show ?thesis by (simp add: fl_quantum mult_right_mono)
qed

lemma fl_ge:
  assumes "x \<noteq> 0" and "c \<le> x" and "c = of_int N * quantum x"
  shows "c \<le> fl x"
proof -
  have q: "0 < quantum x" by (rule quantum_pos)
  from assms(2,3) q have "of_int N \<le> x / quantum x"
    by (simp add: pos_le_divide_eq)
  then have "N \<le> round_half_even (x / quantum x)" by (rule round_half_even_ge)
  then have "(of_int N :: rat) \<le> of_int (round_half_even (x / quantum x))" by simp
  with q assms(1,3) show ?thesis by (simp add: fl_quantum mult_right_mono)
qed

text \<open>Below \<open>2 ^ k\<close> the quantum is \<open>2 ^ (k - 52)\<close> or finer, so it divides every multiple of that.\<close>

lemma quantum_divides:
  assumes "x \<noteq> 0" and "\<bar>x\<bar> \<le> pow2 k" and "- 1022 \<le> k" 
  shows "\<exists>M::int. pow2 (k - 52) = of_int M * quantum x"
proof -
  let ?j = "max (binary_exponent x - 52) (- 1074)"
  from binary_exponent_le [OF assms(1)] assms(2) have "pow2 (binary_exponent x) \<le> pow2 k" by simp
  then have "binary_exponent x \<le> k"
    using pow2_less_iff [of k "binary_exponent x"] by (simp add: not_less [symmetric])
  with assms(3) have j: "?j \<le> k - 52" by simp
  have "pow2 (k - 52) = pow2 (k - 52 - ?j) * pow2 ?j"
    using pow2_diff [of "k - 52" ?j] pow2_pos [of ?j] by simp
  also from j have "pow2 (k - 52 - ?j) = of_int (2 ^ nat (k - 52 - ?j))"
    by (simp add: pow2_def)
  finally show ?thesis unfolding quantum_def by blast
qed

lemma fl_le_multiple:
  assumes "x \<le> of_int N * pow2 (k - 52)" and "\<bar>x\<bar> \<le> pow2 k" and "- 1022 \<le> k"
  shows "fl x \<le> of_int N * pow2 (k - 52)"
proof (cases "x = 0")
  case True
  with assms(1) show ?thesis by (simp add: fl_def)
next
  case False
  from quantum_divides [OF False assms(2,3)] obtain M :: int
    where "pow2 (k - 52) = of_int M * quantum x" ..
  then have "of_int N * pow2 (k - 52) = of_int (N * M) * quantum x" by simp
  from fl_le [OF False assms(1) this] show ?thesis .
qed

lemma fl_ge_multiple:
  assumes "of_int N * pow2 (k - 52) \<le> x" and "\<bar>x\<bar> \<le> pow2 k" and "- 1022 \<le> k"
  shows "of_int N * pow2 (k - 52) \<le> fl x"
proof (cases "x = 0")
  case True
  with assms(1) show ?thesis by (simp add: fl_def)
next
  case False
  from quantum_divides [OF False assms(2,3)] obtain M :: int
    where "pow2 (k - 52) = of_int M * quantum x" ..
  then have "of_int N * pow2 (k - 52) = of_int (N * M) * quantum x" by simp
  from fl_ge [OF False assms(1) this] show ?thesis .
qed

section \<open>Digits\<close>

lemma decimal_small: "n < 10 \<Longrightarrow> decimal n = [digit_char n]"
  by (simp add: decimal.simps [of n])

lemma decimal_step: "10 \<le> n \<Longrightarrow> decimal n = decimal (n div 10) @ [digit_char (n mod 10)]"
  by (simp add: decimal.simps [of n])

lemma decimal_nonempty [simp]: "decimal n \<noteq> []"
  by (cases "n < 10") (simp_all add: decimal.simps [of n])

lemma decimal_two:
  assumes "100 \<le> n"
  shows "decimal n = decimal (n div 100) @ [digit_char (n div 10 mod 10), digit_char (n mod 10)]"
proof -
  from assms have "10 \<le> n" and "10 \<le> n div 10" by simp_all
  then have "decimal n = (decimal (n div 10 div 10) @ [digit_char (n div 10 mod 10)]) @ [digit_char (n mod 10)]"
    by (simp add: decimal_step)
  moreover have "n div 10 div 10 = n div 100" by (simp add: div_mult2_eq [symmetric])
  ultimately show ?thesis by simp
qed

lemma fixed_digits_0: "fixed_digits 0 n = decimal n"
  by (simp add: fixed_digits_def decimal_small digit_char_def)

lemma fixed_digits_2:
  "fixed_digits 2 n
     = decimal (n div 100) @ ''.'' @ [digit_char (n div 10 mod 10), digit_char (n mod 10)]"
proof -
  consider "n = 0" | "0 < n" "n < 10" | "10 \<le> n" "n < 100" | "100 \<le> n" by linarith
  then show ?thesis
  proof cases
    case 1
    then show ?thesis by (simp add: fixed_digits_def decimal_small digit_char_def)
  next
    case 2
    then show ?thesis by (simp add: fixed_digits_def decimal_small digit_char_def)
  next
    case 3
    then have "decimal n = [digit_char (n div 10), digit_char (n mod 10)]"
      by (simp add: decimal_step decimal_small)
    with 3 show ?thesis by (simp add: fixed_digits_def decimal_small digit_char_def)
  next
    case 4
    then show ?thesis by (simp add: fixed_digits_def decimal_two Let_def)
  qed
qed

lemma toFixed_0:
  assumes "0 \<le> y" and "y < 10 ^ 21"
  shows "toFixed eng y 0 = decimal (nat (nearest_integer y))"
  using assms by (simp add: toFixed_def nearest_integer_def fixed_digits_0)

lemma toFixed_2:
  assumes "0 \<le> y" and "y < 10 ^ 21"
  shows "toFixed eng y 2 = two_decimals y"
  using assms
  by (simp add: toFixed_def two_decimals_def hundredths_def nearest_integer_def fixed_digits_2)

lemma Number_toString_int:
  assumes "0 \<le> m" and "m < 2 ^ 53"
  shows "Number_toString eng (of_int m) = decimal (nat m)"
proof -
  from assms(2) have "(of_int m :: rat) < of_int (2 ^ 53)" by (simp only: of_int_less_iff)
  with assms(1) show ?thesis by (simp add: Number_toString_def)
qed

lemma fl_range:
  assumes "0 \<le> x" and "x \<le> 2 ^ k"
  shows "0 \<le> fl x \<and> fl x \<le> 2 ^ k"
proof -
  have "of_int (2 ^ 52) * pow2 (int k - 52) = (2 ^ k :: rat)"
    using pow2_diff [of "int k" 52] pow2_nat [of k] pow2_nat [of 52] by simp
  moreover from assms have "\<bar>x\<bar> \<le> pow2 (int k)" by (simp add: pow2_nat)
  ultimately have "fl x \<le> 2 ^ k"
    using fl_le_multiple [of x "2 ^ 52" "int k"] assms(2) by simp
  with fl_nonneg [OF assms(1)] show ?thesis by simp
qed

lemma js_rem_range:
  assumes "0 \<le> a" and "0 < b"
  shows "0 \<le> js_rem a b \<and> js_rem a b < b"
proof -
  from assms have q: "0 \<le> a / b" by simp
  from assms(2) have eq: "b * (a / b) = a" by simp
  have "of_int \<lfloor>a / b\<rfloor> \<le> a / b" by linarith
  with assms(2) have "b * of_int \<lfloor>a / b\<rfloor> \<le> b * (a / b)"
    by (simp only: mult_le_cancel_left_pos)
  with eq have lo: "b * of_int \<lfloor>a / b\<rfloor> \<le> a" by linarith
  have "a / b < of_int \<lfloor>a / b\<rfloor> + 1" by linarith
  with assms(2) have "b * (a / b) < b * (of_int \<lfloor>a / b\<rfloor> + 1)"
    by (simp only: mult_less_cancel_left_pos)
  with eq have hi: "a < b * of_int \<lfloor>a / b\<rfloor> + b" by (simp add: algebra_simps)
  from q lo hi show ?thesis by (simp add: js_rem_def Let_def)
qed

lemma runtimeDisplay_rounded:
  assumes "0 \<le> x" and "x < 2 ^ 53"
  shows "runtimeDisplay eng x = rounded_format x"
proof -
  have big: "(2::rat) ^ 53 < 10 ^ 21" by simp
  have b1: "x < 1000 \<Longrightarrow> toFixed eng x 0 = decimal (nat (nearest_integer x))"
    using assms(1) by (intro toFixed_0) simp_all
  have b2: "x < 60000 \<Longrightarrow> toFixed eng (js_div x 1000) 2 = two_decimals (js_div x 1000)"
  proof -
    assume "x < 60000"
    with assms(1) have "0 \<le> x / 1000" "x / 1000 \<le> 2 ^ 6" by simp_all
    from fl_range [OF this] show ?thesis
      by (intro toFixed_2) (simp_all add: js_div_def)
  qed
  have b3: "Number_toString eng (of_int \<lfloor>js_div x 60000\<rfloor>) = decimal (nat \<lfloor>js_div x 60000\<rfloor>)"
  proof -
    from assms have "0 \<le> x / 60000" "x / 60000 \<le> 2 ^ 38" by simp_all
    from fl_range [OF this] have "0 \<le> js_div x 60000" "js_div x 60000 \<le> 2 ^ 38"
      by (simp_all add: js_div_def)
    then have "0 \<le> \<lfloor>js_div x 60000\<rfloor>" "\<lfloor>js_div x 60000\<rfloor> \<le> 2 ^ 38"
      by (simp_all add: floor_le_iff le_floor_iff)
    then show ?thesis by (intro Number_toString_int) simp_all
  qed
  have b4: "toFixed eng (js_div (js_rem x 60000) 1000) 0
              = decimal (nat (nearest_integer (js_div (js_rem x 60000) 1000)))"
  proof -
    from js_rem_range [OF assms(1), of 60000]
    have "0 \<le> js_rem x 60000 / 1000" "js_rem x 60000 / 1000 \<le> 2 ^ 6" by simp_all
    from fl_range [OF this] show ?thesis
      by (intro toFixed_0) (simp_all add: js_div_def)
  qed
  show ?thesis
    by (simp add: runtimeDisplay_def rounded_format_def b1 b2 b3 b4 Let_def)
qed

section \<open>Whole milliseconds\<close>

lemma fl_error_bound:
  assumes "0 \<le> x" and "x \<le> B"
  shows "\<bar>fl x - x\<bar> \<le> max (B / 2 ^ 53) (1 / 2 ^ 60)"
proof (cases "x = 0")
  case True
  then show ?thesis by (simp add: fl_def max_def)
next
  case False
  have "pow2 (- 1074) \<le> pow2 (- 59)" by (rule pow2_mono) simp
  then have tiny: "pow2 (- 1074) \<le> 1 / 2 ^ 59" by (simp add: pow2_def)
  from assms have "\<bar>x\<bar> / 2 ^ 52 \<le> B / 2 ^ 52" by (simp add: divide_right_mono)
  with quantum_le [OF False] tiny have "quantum x \<le> max (B / 2 ^ 52) (1 / 2 ^ 59)"
    by (simp add: max_def split: if_splits)
  then have "quantum x / 2 \<le> max (B / 2 ^ 52) (1 / 2 ^ 59) / 2" by simp
  also have "\<dots> = max (B / 2 ^ 53) (1 / 2 ^ 60)" by (simp add: max_def)
  finally show ?thesis using fl_error [of x] by simp
qed

lemma fl_ge_int:
  assumes "of_int k \<le> x" and "0 \<le> x" and "x \<le> 2 ^ 52"
  shows "of_int k \<le> fl x"
  using fl_ge_multiple [of k 52 x] assms by (simp add: pow2_def)

lemma fl_ge_half:
  assumes "of_int k / 2 \<le> x" and "0 \<le> x" and "x \<le> 2 ^ 51"
  shows "of_int k / 2 \<le> fl x"
  using fl_ge_multiple [of k 51 x] assms by (simp add: pow2_def)

lemma minutes_exact:
  assumes "n < 2 ^ 53"
  shows "\<lfloor>js_div (of_nat n) 60000\<rfloor> = int (n div 60000)"
proof -
  let ?y = "of_nat n / 60000 :: rat"
  let ?k = "int (n div 60000)"
  from assms have "(of_nat n :: rat) < of_nat (2 ^ 53)" by (simp only: of_nat_less_iff)
  then have n: "(of_nat n :: rat) < 2 ^ 53" by simp
  have "60000 * (n div 60000) \<le> n" by simp
  then have "(of_nat (60000 * (n div 60000)) :: rat) \<le> of_nat n" by (simp only: of_nat_le_iff)
  then have lo: "of_int ?k \<le> ?y" by simp
  have "n < 60000 * (n div 60000) + 60000"
    using mod_less_divisor [of 60000 n] div_mult_mod_eq [of n 60000] by linarith
  then have "n + 1 \<le> 60000 * (n div 60000) + 60000" by simp
  then have "(of_nat (n + 1) :: rat) \<le> of_nat (60000 * (n div 60000) + 60000)"
    by (simp only: of_nat_le_iff)
  then have hi: "?y \<le> of_int ?k + 1 - 1 / 60000" by simp
  from n have y0: "0 \<le> ?y" and y1: "?y \<le> 2 ^ 53 / 60000" by simp_all
  then have "?y \<le> 2 ^ 52" by simp
  from fl_ge_int [OF lo y0 this] have a: "of_int ?k \<le> fl ?y" .
  from n have "?y < 2 ^ 53 / 60000" by simp
  then have "\<bar>fl ?y - ?y\<bar> \<le> max (?y / 2 ^ 53) (1 / 2 ^ 60)"
    using fl_error_bound [OF y0, of ?y] by simp
  moreover from n have "?y / 2 ^ 53 < 1 / 60000" by simp
  ultimately have "\<bar>fl ?y - ?y\<bar> < 1 / 60000" by (simp add: max_def split: if_splits)
  with hi have b: "fl ?y < of_int ?k + 1" by linarith
  from a b show ?thesis by (simp add: js_div_def floor_unique)
qed

lemma js_rem_nat: "js_rem (of_nat n) 60000 = of_nat (n mod 60000)"
proof -
  have "\<lfloor>(of_nat n :: rat) / 60000\<rfloor> = int (n div 60000)"
    using floor_divide_of_nat_eq [of n 60000, where ?'a = rat] by simp
  moreover have "(of_nat n :: rat) = of_nat (60000 * (n div 60000) + n mod 60000)" by simp
  then have "(of_nat n :: rat) - 60000 * of_nat (n div 60000) = of_nat (n mod 60000)"
    by (simp only: of_nat_add of_nat_mult of_nat_numeral)
  ultimately show ?thesis by (simp add: js_rem_def Let_def)
qed

lemma seconds_exact:
  assumes "r < 60000"
  shows "nearest_integer (js_div (of_nat r) 1000) = int ((r + 500) div 1000)"
proof -
  let ?z = "of_nat r / 1000 :: rat"
  let ?K = "int ((r + 500) div 1000)"
  from assms have "(of_nat r :: rat) < of_nat 60000" by (simp only: of_nat_less_iff)
  then have r: "(of_nat r :: rat) < 60000" by simp
  then have z0: "0 \<le> ?z" and z1: "?z \<le> 60" by simp_all
  have "1000 * ((r + 500) div 1000) \<le> r + 500" by simp
  then have "(of_nat (1000 * ((r + 500) div 1000)) :: rat) \<le> of_nat (r + 500)"
    by (simp only: of_nat_le_iff)
  then have lo: "of_int (2 * ?K - 1) / 2 \<le> ?z" by simp
  have "r + 500 < 1000 * ((r + 500) div 1000) + 1000"
    using mod_less_divisor [of 1000 "r + 500"] div_mult_mod_eq [of "r + 500" 1000] by linarith
  then have "r + 501 \<le> 1000 * ((r + 500) div 1000) + 1000" by simp
  then have "(of_nat (r + 501) :: rat) \<le> of_nat (1000 * ((r + 500) div 1000) + 1000)"
    by (simp only: of_nat_le_iff)
  then have hi: "?z \<le> of_int ?K + 1 / 2 - 1 / 1000" by simp
  from z1 have "?z \<le> 2 ^ 51" by simp
  from fl_ge_half [OF lo z0 this] have a: "of_int ?K - 1 / 2 \<le> fl ?z" by simp
  have "\<bar>fl ?z - ?z\<bar> \<le> max (60 / 2 ^ 53) (1 / 2 ^ 60)"
    by (rule fl_error_bound [OF z0 z1])
  then have "\<bar>fl ?z - ?z\<bar> < 1 / 1000" by (simp add: max_def)
  with hi have b: "fl ?z < of_int ?K + 1 / 2" by linarith
  from a b have "of_int ?K \<le> fl ?z + 1 / 2" "fl ?z + 1 / 2 < of_int ?K + 1" by linarith+
  then show ?thesis by (simp add: nearest_integer_def js_div_def floor_unique)
qed

lemma hundredths_nearest:
  assumes "n < 60000"
  shows "10 * nat (nearest_integer (js_div (of_nat n) 1000 * 100)) \<le> n + 5 \<and>
         n \<le> 10 * nat (nearest_integer (js_div (of_nat n) 1000 * 100)) + 5"
proof -
  let ?y = "of_nat n / 1000 :: rat"
  let ?h = "nearest_integer (fl ?y * 100)"
  from assms have "(of_nat n :: rat) < of_nat 60000" by (simp only: of_nat_less_iff)
  then have y0: "0 \<le> ?y" and y1: "?y \<le> 60" by simp_all
  have "\<bar>fl ?y - ?y\<bar> \<le> max (60 / 2 ^ 53) (1 / 2 ^ 60)"
    by (rule fl_error_bound [OF y0 y1])
  then have e: "\<bar>fl ?y - ?y\<bar> < 1 / 1000" by (simp add: max_def)
  have f: "of_int ?h \<le> fl ?y * 100 + 1 / 2" "fl ?y * 100 + 1 / 2 < of_int ?h + 1"
    unfolding nearest_integer_def by linarith+
  from fl_nonneg [OF y0] have "0 \<le> fl ?y * 100 + 1 / 2" by simp
  then have h0: "0 \<le> ?h" unfolding nearest_integer_def by simp
  have yn: "?y * 1000 = of_nat n" by simp
  from e have e1: "fl ?y < ?y + 1 / 1000" and e2: "?y - 1 / 1000 < fl ?y"
    by (simp_all only: abs_less_iff) linarith+
  from e1 f(1) yn have "10 * of_int ?h < (of_nat n :: rat) + 6" by linarith
  then have "of_int (10 * ?h) < (of_int (int n + 6) :: rat)" by simp
  then have u: "10 * ?h < int n + 6" by (simp only: of_int_less_iff)
  from e2 f(2) yn have "(of_nat n :: rat) < 10 * of_int ?h + 6" by linarith
  then have "(of_int (int n) :: rat) < of_int (10 * ?h + 6)" by simp
  then have l: "int n < 10 * ?h + 6" by (simp only: of_int_less_iff)
  from h0 u l show ?thesis by (simp add: js_div_def) linarith
qed

lemma nearest_integer_nearest: "\<bar>of_int (nearest_integer x) - x\<bar> \<le> 1 / 2"
proof -
  have "of_int \<lfloor>x + 1 / 2\<rfloor> \<le> x + 1 / 2" "x + 1 / 2 < of_int \<lfloor>x + 1 / 2\<rfloor> + 1"
    by linarith+
  then show ?thesis unfolding nearest_integer_def by linarith
qed

lemma nearest_integer_nat: "nearest_integer (of_nat n) = int n"
  unfolding nearest_integer_def by (rule floor_unique) simp_all

lemma of_nat_less_numeral_power: "n < 2 ^ 53 \<Longrightarrow> (of_nat n :: rat) < 2 ^ 53"
proof -
  assume "n < 2 ^ 53"
  then have "(of_nat n :: rat) < of_nat (2 ^ 53)" by (simp only: of_nat_less_iff)
  then show ?thesis by simp
qed

lemma whole_ms:
  assumes "n < 1000"
  shows "runtimeDisplay eng (of_nat n) = decimal n @ ''ms''"
proof -
  from assms have "n < 2 ^ 53" by simp
  then have "runtimeDisplay eng (of_nat n) = rounded_format (of_nat n)"
    by (intro runtimeDisplay_rounded of_nat_less_numeral_power) simp
  moreover from assms have "(of_nat n :: rat) < of_nat 1000" by (simp only: of_nat_less_iff)
  ultimately show ?thesis by (simp add: rounded_format_def nearest_integer_nat)
qed

lemma whole_seconds:
  assumes "1000 \<le> n" and "n < 60000"
  shows "\<exists>h. 10 * h \<le> n + 5 \<and> n \<le> 10 * h + 5 \<and>
             runtimeDisplay eng (of_nat n) =
               decimal (h div 100) @ ''.'' @
               [digit_char (h div 10 mod 10), digit_char (h mod 10)] @ ''s''"
proof -
  from assms have "n < 2 ^ 53" by simp
  then have "runtimeDisplay eng (of_nat n) = rounded_format (of_nat n)"
    by (intro runtimeDisplay_rounded of_nat_less_numeral_power) simp
  moreover from assms(1) have "(of_nat 1000 :: rat) \<le> of_nat n" by (simp only: of_nat_le_iff)
  moreover from assms(2) have "(of_nat n :: rat) < of_nat 60000" by (simp only: of_nat_less_iff)
  ultimately have "runtimeDisplay eng (of_nat n) = two_decimals (js_div (of_nat n) 1000) @ ''s''"
    by (simp add: rounded_format_def)
  with hundredths_nearest [OF assms(2)] show ?thesis
    by (auto simp: two_decimals_def hundredths_def)
qed

lemma whole_minutes:
  assumes "60000 \<le> n" and "n < 2 ^ 53"
  shows "runtimeDisplay eng (of_nat n) =
           decimal (n div 60000) @ ''m '' @ decimal ((n mod 60000 + 500) div 1000) @ ''s''"
proof -
  from assms(2) have "runtimeDisplay eng (of_nat n) = rounded_format (of_nat n)"
    by (intro runtimeDisplay_rounded of_nat_less_numeral_power) simp
  moreover from assms(1) have "(of_nat 60000 :: rat) \<le> of_nat n" by (simp only: of_nat_le_iff)
  moreover have "nearest_integer (js_div (of_nat (n mod 60000)) 1000)
                   = int ((n mod 60000 + 500) div 1000)"
    by (rule seconds_exact) simp
  ultimately show ?thesis
    by (simp add: rounded_format_def minutes_exact [OF assms(2)] js_rem_nat)
qed

lemma format_999: "runtimeDisplay eng 999 = ''999ms''"
  using whole_ms [of 999 eng]
  by (simp add: decimal_step decimal_small digit_char_def)

lemma format_1000: "runtimeDisplay eng 1000 = ''1.00s''"
proof -
  from whole_seconds [of 1000 eng] obtain h
    where "10 * h \<le> 1000 + 5" and "1000 \<le> 10 * h + 5"
      and r: "runtimeDisplay eng (of_nat 1000) =
                decimal (h div 100) @ ''.'' @
                [digit_char (h div 10 mod 10), digit_char (h mod 10)] @ ''s''"
    by auto
  then have "h = 100" by linarith
  with r show ?thesis
    by (simp add: decimal_step decimal_small digit_char_def)
qed

lemma format_59999: "runtimeDisplay eng 59999 = ''60.00s''"
proof -
  from whole_seconds [of 59999 eng] obtain h
    where "10 * h \<le> 59999 + 5" and "59999 \<le> 10 * h + 5"
      and r: "runtimeDisplay eng (of_nat 59999) =
                decimal (h div 100) @ ''.'' @
                [digit_char (h div 10 mod 10), digit_char (h mod 10)] @ ''s''"
    by auto
  then have "h = 6000" by linarith
  with r show ?thesis
    by (simp add: decimal_step decimal_small digit_char_def)
qed

lemma format_60000: "runtimeDisplay eng 60000 = ''1m 0s''"
  using whole_minutes [of 60000 eng]
  by (simp add: decimal_step decimal_small digit_char_def)

lemma format_125000: "runtimeDisplay eng 125000 = ''2m 5s''"
  using whole_minutes [of 125000 eng]
  by (simp add: decimal_step decimal_small digit_char_def)

lemma fl_small_nat:
  assumes "n \<le> 2 ^ 52"
  shows "fl (of_nat n) = of_nat n"
proof -
  from assms have "(of_nat n :: rat) \<le> of_nat (2 ^ 52)" by (simp only: of_nat_le_iff)
  then have b: "(of_nat n :: rat) \<le> 2 ^ 52" by simp
  then have b': "\<bar>of_nat n :: rat\<bar> \<le> pow2 52" by (simp add: pow2_def)
  from b have "of_int (int n) \<le> fl (of_nat n)"
    by (intro fl_ge_int) simp_all
  moreover from b' have "fl (of_nat n) \<le> of_int (int n) * pow2 (52 - 52)"
    by (intro fl_le_multiple) (simp_all add: pow2_def)
  ultimately show ?thesis by (simp add: pow2_def)
qed

lemma elapsed_5: "runtimeDisplay eng (js_sub 5 0) = ''5ms''"
proof -
  have "js_sub 5 0 = of_nat 5"
    using fl_small_nat [of 5] by (simp add: js_sub_def)
  then show ?thesis
    using whole_ms [of 5 eng] by (simp add: decimal_small digit_char_def)
qed

section \<open>Durations that are binary64 values\<close>

text \<open>
  A binary64 value is a multiple of its spacing, and when it lies between 1 and \<open>2\<^sup>5\<^sup>3\<close>
  every integer is a multiple of that spacing too. Rounding a quotient moves it by less
  than the spacing of the dividend allows for, so it does not carry the quotient across
  an integer bound of the dividend.
\<close>

lemma binary64_multiple: "binary64 x \<Longrightarrow> \<exists>M::int. x = of_int M * quantum x"
proof (cases "x = 0")
  case True
  then have "x = of_int 0 * quantum x" by simp
  then show ?thesis by blast
next
  case False
  assume "binary64 x"
  with False have "x = of_int (round_half_even (x / quantum x)) * quantum x"
    by (simp add: binary64_def fl_quantum)
  then show ?thesis by blast
qed

lemma half_below_quantum:
  assumes "x \<noteq> 0"
  shows "\<bar>x\<bar> / 2 ^ 53 < quantum x"
proof -
  have "\<bar>x\<bar> / 2 ^ 53 < pow2 (binary_exponent x + 1) / 2 ^ 53"
    using binary_exponent_less [OF assms] by (simp add: divide_strict_right_mono)
  also have "\<dots> = pow2 (binary_exponent x + 1 - 53)"
    using pow2_diff [of "binary_exponent x + 1" 53] pow2_nat [of 53] by simp
  also have "\<dots> \<le> quantum x"
    unfolding quantum_def by (rule pow2_mono) simp
  finally show ?thesis .
qed

lemma quantum_of_duration:
  assumes "1 \<le> x" and "x < 2 ^ 53"
  shows "\<exists>j::nat. quantum x * 2 ^ j = 1"
proof -
  from assms(1) have nz: "x \<noteq> 0" by simp
  from binary_exponent_less [OF nz] assms(1) have "pow2 0 < pow2 (binary_exponent x + 1)"
    by (simp add: pow2_def)
  then have lo: "0 \<le> binary_exponent x" by (simp add: pow2_less_iff)
  from binary_exponent_le [OF nz] assms have "pow2 (binary_exponent x) < pow2 53"
    by (simp add: pow2_def)
  then have hi: "binary_exponent x \<le> 52" by (simp add: pow2_less_iff)
  from lo have q: "quantum x = pow2 (binary_exponent x - 52)"
    by (simp add: quantum_def max_def)
  have "pow2 (binary_exponent x - 52) * pow2 (52 - binary_exponent x) = 1"
    using pow2_diff [of 0 "52 - binary_exponent x"] pow2_pos [of "52 - binary_exponent x"]
    by (simp add: pow2_def [of 0])
  moreover from hi have "pow2 (52 - binary_exponent x) = 2 ^ nat (52 - binary_exponent x)"
    by (simp add: pow2_def)
  ultimately show ?thesis using q by auto
qed

lemma integer_multiple:
  assumes "1 \<le> x" and "x < 2 ^ 53"
  shows "\<exists>N'::int. of_int N = of_int N' * quantum x"
proof -
  from quantum_of_duration [OF assms] obtain j :: nat where j: "quantum x * 2 ^ j = 1" ..
  have "of_int N = of_int N * (quantum x * 2 ^ j)" by (simp add: j)
  also have "\<dots> = of_int (N * 2 ^ j) * quantum x" by simp
  finally show ?thesis by blast
qed

lemma quantum_quotient:
  assumes "x \<noteq> 0" and "0 < c"
  shows "c * (quantum (x / c) / 2) \<le> max (\<bar>x\<bar> / 2 ^ 53) (c * pow2 (- 1075))"
proof -
  from assms have "x / c \<noteq> 0" by simp
  from quantum_le [OF this] assms(2)
  have q: "quantum (x / c) \<le> max (\<bar>x\<bar> / c / 2 ^ 52) (pow2 (- 1074))" by simp
  have half: "pow2 (- 1074) / 2 = pow2 (- 1075)"
    using pow2_diff [of "- 1074" 1] by (simp add: pow2_def [of 1])
  from assms(2) have scale: "c * (\<bar>x\<bar> / c / 2 ^ 52 / 2) = \<bar>x\<bar> / 2 ^ 53" by simp
  show ?thesis
  proof (cases "\<bar>x\<bar> / c / 2 ^ 52 \<le> pow2 (- 1074)")
    case True
    with q have "quantum (x / c) / 2 \<le> pow2 (- 1074) / 2" by (simp add: max_def)
    with assms(2) have "c * (quantum (x / c) / 2) \<le> c * (pow2 (- 1074) / 2)"
      by (simp only: mult_le_cancel_left_pos)
    then have "c * (quantum (x / c) / 2) \<le> c * pow2 (- 1075)" by (simp only: half)
    then show ?thesis by (rule max.coboundedI2)
  next
    case False
    with q have "quantum (x / c) / 2 \<le> \<bar>x\<bar> / c / 2 ^ 52 / 2" by (simp add: max_def)
    with assms(2) have "c * (quantum (x / c) / 2) \<le> c * (\<bar>x\<bar> / c / 2 ^ 52 / 2)"
      by (simp only: mult_le_cancel_left_pos)
    then have "c * (quantum (x / c) / 2) \<le> \<bar>x\<bar> / 2 ^ 53" by (simp only: scale)
    then show ?thesis by (rule max.coboundedI1)
  qed
qed

lemma small_enough:
  assumes "0 < r" and "r \<le> X" and "1 \<le> X" and "0 < c" and "c \<le> 2 ^ 16"
  shows "c * (quantum (r / c) / 2) < quantum X"
proof -
  from assms have nz: "r \<noteq> 0" "X \<noteq> 0" by simp_all
  from assms(1,2) have "\<bar>r\<bar> / 2 ^ 53 \<le> \<bar>X\<bar> / 2 ^ 53" by (simp add: divide_right_mono)
  also have "\<dots> < quantum X" by (rule half_below_quantum [OF nz(2)])
  finally have a: "\<bar>r\<bar> / 2 ^ 53 < quantum X" .
  from assms(3) have "\<bar>X\<bar> / 2 ^ 53 \<ge> 1 / 2 ^ 53" by (simp add: divide_right_mono)
  with half_below_quantum [OF nz(2)] have q: "1 / 2 ^ 53 < quantum X" by simp
  have "pow2 (- 1075) \<le> pow2 (- 69)" by (rule pow2_mono) simp
  then have "pow2 (- 1075) \<le> 1 / 2 ^ 69" by (simp add: pow2_def)
  with assms(4) have "c * pow2 (- 1075) \<le> c * (1 / 2 ^ 69)" by (simp only: mult_le_cancel_left_pos)
  also from assms(5) have "c * (1 / 2 ^ 69) \<le> 2 ^ 16 * (1 / 2 ^ 69)" by (simp add: divide_right_mono)
  also have "\<dots> = (1 / 2 ^ 53 :: rat)" by simp
  finally have b: "c * pow2 (- 1075) < quantum X" using q by simp
  from quantum_quotient [OF nz(1) assms(4)] a b show ?thesis by (simp add: max_def split: if_splits)
qed

lemma no_crossing:
  assumes x: "x = of_int M * q" and N: "of_int N = of_int N' * q" and q: "0 < q" and c: "0 < c"
    and small: "c * (quantum (x / c) / 2) < q"
  shows "x < of_int N \<Longrightarrow> c * fl (x / c) < of_int N"
    and "of_int N < x \<Longrightarrow> of_int N < c * fl (x / c)"
proof -
  have e: "\<bar>fl (x / c) - x / c\<bar> \<le> quantum (x / c) / 2" by (rule fl_error)
  from c have xc: "c * (x / c) = x" by simp
  from e have "fl (x / c) \<le> x / c + quantum (x / c) / 2" by linarith
  with c have "c * fl (x / c) \<le> c * (x / c + quantum (x / c) / 2)"
    by (simp only: mult_le_cancel_left_pos)
  with xc have up: "c * fl (x / c) \<le> x + c * (quantum (x / c) / 2)" by (simp add: distrib_left)
  from e have "x / c - quantum (x / c) / 2 \<le> fl (x / c)" by linarith
  with c have "c * (x / c - quantum (x / c) / 2) \<le> c * fl (x / c)"
    by (simp only: mult_le_cancel_left_pos)
  with xc have down: "x - c * (quantum (x / c) / 2) \<le> c * fl (x / c)"
    by (simp add: right_diff_distrib)
  {
    assume "x < of_int N"
    with x N have "of_int M * q < of_int N' * q" by simp
    with q have "(of_int M :: rat) < of_int N'" by (simp only: mult_less_cancel_right_pos)
    then have "M + 1 \<le> N'" by simp
    then have "(of_int (M + 1) :: rat) \<le> of_int N'" by (simp only: of_int_le_iff)
    with q have "of_int (M + 1) * q \<le> of_int N' * q" by (simp only: mult_le_cancel_right_pos)
    with x N have "x + q \<le> of_int N" by (simp add: algebra_simps)
    with up small show "c * fl (x / c) < of_int N" by linarith
  }
  {
    assume "of_int N < x"
    with x N have "of_int N' * q < of_int M * q" by simp
    with q have "(of_int N' :: rat) < of_int M" by (simp only: mult_less_cancel_right_pos)
    then have "N' + 1 \<le> M" by simp
    then have "(of_int (N' + 1) :: rat) \<le> of_int M" by (simp only: of_int_le_iff)
    with q have "of_int (N' + 1) * q \<le> of_int M * q" by (simp only: mult_le_cancel_right_pos)
    with x N have "of_int N + q \<le> x" by (simp add: algebra_simps)
    with down small show "of_int N < c * fl (x / c)" by linarith
  }
qed

lemma minutes_floor:
  assumes "binary64 x" and "60000 \<le> x" and "x < 2 ^ 53"
  shows "\<lfloor>js_div x 60000\<rfloor> = \<lfloor>x / 60000\<rfloor>"
proof -
  let ?k = "\<lfloor>x / 60000\<rfloor>"
  have k: "of_int ?k \<le> x / 60000" "x / 60000 < of_int ?k + 1" by linarith+
  from assms(2,3) have y: "0 \<le> x / 60000" "x / 60000 \<le> 2 ^ 52" by simp_all
  from fl_ge_int [OF k(1) y] have lo: "of_int ?k \<le> fl (x / 60000)" .
  from assms(2) have x1: "1 \<le> x" "0 < x" by simp_all
  from binary64_multiple [OF assms(1)] obtain M :: int where M: "x = of_int M * quantum x" ..
  from integer_multiple [OF x1(1) assms(3), of "60000 * (?k + 1)"] obtain N' :: int
    where N: "of_int (60000 * (?k + 1)) = of_int N' * quantum x" ..
  have small: "60000 * (quantum (x / 60000) / 2) < quantum x"
    by (rule small_enough [OF x1(2) _ x1(1)]) simp_all
  from k(2) have "x < of_int (60000 * (?k + 1))" by simp
  from no_crossing(1) [OF M N quantum_pos _ small this]
  have "60000 * fl (x / 60000) < 60000 * (of_int ?k + 1)" by simp
  then have hi: "fl (x / 60000) < of_int ?k + 1" by simp
  from lo hi show ?thesis by (simp add: js_div_def floor_unique)
qed

lemma seconds_nearest:
  assumes "binary64 x" and "60000 \<le> x" and "x < 2 ^ 53"
  shows "nearest_integer (js_div (js_rem x 60000) 1000)
           = nearest_integer ((x - 60000 * of_int \<lfloor>x / 60000\<rfloor>) / 1000)"
proof -
  define r where "r = x - 60000 * of_int \<lfloor>x / 60000\<rfloor>"
  define K where "K = nearest_integer (r / 1000)"
  define z where "z = fl (r / 1000)"
  from assms(2) have x0: "0 \<le> x" and x1: "1 \<le> x" by simp_all
  from x0 have rem: "js_rem x 60000 = r" by (simp add: js_rem_def Let_def r_def)
  from js_rem_range [OF x0, of 60000] rem have r: "0 \<le> r" "r < 60000" by simp_all
  have K: "of_int K \<le> r / 1000 + 1 / 2" "r / 1000 + 1 / 2 < of_int K + 1"
    unfolding K_def nearest_integer_def by linarith+
  from K(1) have "of_int K - 1 / 2 \<le> r / 1000" by linarith
  moreover have "of_int (2 * K - 1) / 2 = (of_int K :: rat) - 1 / 2"
    by (simp add: diff_divide_distrib)
  ultimately have "of_int (2 * K - 1) / 2 \<le> r / 1000" by (simp only:)
  moreover from r have "0 \<le> r / 1000" "r / 1000 \<le> 2 ^ 51" by simp_all
  ultimately have "of_int (2 * K - 1) / 2 \<le> fl (r / 1000)" by (rule fl_ge_half)
  with \<open>of_int (2 * K - 1) / 2 = (of_int K :: rat) - 1 / 2\<close>
  have lo: "of_int K \<le> z + 1 / 2" by (simp add: z_def)
  have hi: "z + 1 / 2 < of_int K + 1"
  proof (cases "r = 0")
    case True
    then have "z = 0" by (simp add: z_def fl_def)
    moreover from K(2) True have "(0::rat) < of_int K + 1 / 2" by simp
    ultimately show ?thesis by simp
  next
    case False
    with r(1) have rpos: "0 < r" by simp
    from binary64_multiple [OF assms(1)] obtain M :: int where M: "x = of_int M * quantum x" ..
    from integer_multiple [OF x1 assms(3), of "60000 * \<lfloor>x / 60000\<rfloor>"] obtain L :: int
      where L: "of_int (60000 * \<lfloor>x / 60000\<rfloor>) = of_int L * quantum x" ..
    have "r = x - of_int (60000 * \<lfloor>x / 60000\<rfloor>)" by (simp add: r_def)
    also have "\<dots> = of_int M * quantum x - of_int L * quantum x"
      using M L by simp
    also have "\<dots> = of_int (M - L) * quantum x" by (simp add: left_diff_distrib)
    finally have R: "r = of_int (M - L) * quantum x" .
    from integer_multiple [OF x1 assms(3), of "1000 * K + 500"] obtain N' :: int
      where N: "of_int (1000 * K + 500) = of_int N' * quantum x" ..
    from r(2) assms(2) have rx: "r \<le> x" by simp
    have small: "1000 * (quantum (r / 1000) / 2) < quantum x"
      by (rule small_enough [OF rpos rx x1]) simp_all
    from K(2) have "r < 1000 * of_int K + 500" by linarith
    then have less: "r < of_int (1000 * K + 500)" by simp
    have "1000 * fl (r / 1000) < of_int (1000 * K + 500)"
      by (rule no_crossing(1) [OF R N quantum_pos _ small less]) simp
    then have "1000 * z < 1000 * of_int K + 500" by (simp add: z_def)
    then show ?thesis by linarith
  qed
  from lo hi have "\<lfloor>z + 1 / 2\<rfloor> = K" by (simp add: floor_unique)
  then have "nearest_integer z = K" by (simp only: nearest_integer_def)
  then have "nearest_integer (js_div (js_rem x 60000) 1000) = K"
    by (simp only: rem js_div_def z_def)
  then show ?thesis by (simp only: K_def r_def)
qed

lemma seconds_hundredths:
  assumes "binary64 x" and "1000 \<le> x" and "x < 60000"
  shows "\<bar>of_nat (nat (nearest_integer (js_div x 1000 * 100))) / 100 - x / 1000\<bar> \<le> 1 / 200"
proof -
  let ?y = "fl (x / 1000)"
  let ?H = "nearest_integer (?y * 100)"
  from assms(2,3) have x1: "1 \<le> x" "0 < x" and x53: "x < 2 ^ 53" by simp_all
  from assms(2) have "0 \<le> x / 1000" by simp
  from fl_nonneg [OF this] have y0: "0 \<le> ?y" .
  have H: "of_int ?H \<le> ?y * 100 + 1 / 2" "?y * 100 + 1 / 2 < of_int ?H + 1"
    unfolding nearest_integer_def by linarith+
  from y0 have "0 \<le> ?y * 100 + 1 / 2" by simp
  then have H0: "0 \<le> ?H" unfolding nearest_integer_def by simp
  from binary64_multiple [OF assms(1)] obtain M :: int where M: "x = of_int M * quantum x" ..
  have small: "1000 * (quantum (x / 1000) / 2) < quantum x"
    by (rule small_enough [OF x1(2) _ x1(1)]) simp_all
  have lo: "of_int (10 * ?H - 5) \<le> x"
  proof (rule ccontr)
    assume "\<not> of_int (10 * ?H - 5) \<le> x"
    then have less: "x < of_int (10 * ?H - 5)" by simp
    from integer_multiple [OF x1(1) x53, of "10 * ?H - 5"] obtain N' :: int
      where N: "of_int (10 * ?H - 5) = of_int N' * quantum x" ..
    from no_crossing(1) [OF M N quantum_pos _ small less]
    have "1000 * ?y < 10 * of_int ?H - 5" by simp
    with H(1) show False by linarith
  qed
  have hi: "x \<le> of_int (10 * ?H + 5)"
  proof (rule ccontr)
    assume "\<not> x \<le> of_int (10 * ?H + 5)"
    then have less: "of_int (10 * ?H + 5) < x" by simp
    from integer_multiple [OF x1(1) x53, of "10 * ?H + 5"] obtain N' :: int
      where N: "of_int (10 * ?H + 5) = of_int N' * quantum x" ..
    from no_crossing(2) [OF M N quantum_pos _ small less]
    have "10 * of_int ?H + 5 < 1000 * ?y" by simp
    with H(2) show False by linarith
  qed
  from H0 have "(of_nat (nat ?H) :: rat) = of_int ?H" by simp
  moreover from lo hi have "10 * of_int ?H - 5 \<le> x" "x \<le> 10 * of_int ?H + 5" by simp_all
  then have "\<bar>of_int ?H / 100 - x / 1000\<bar> \<le> 1 / 200" by linarith
  ultimately show ?thesis by (simp add: js_div_def)
qed

lemma nearest_hundredths_mem:
  assumes "0 \<le> y" and "\<bar>of_nat h / 100 - y\<bar> \<le> 1 / 200"
  shows "h \<in> set (nearest_hundredths y)"
proof -
  let ?f = "\<lfloor>y * 100\<rfloor>"
  have f: "of_int ?f \<le> y * 100" "y * 100 < of_int ?f + 1" by linarith+
  from assms(1) have f0: "0 \<le> ?f" by simp
  from assms(2) have "of_nat h \<le> y * 100 + 1 / 2" "y * 100 - 1 / 2 \<le> of_nat h"
    by linarith+
  with f have "(of_nat h :: rat) < of_int ?f + 2" "of_int ?f - 1 < (of_nat h :: rat)"
    by linarith+
  then have "(of_int (int h) :: rat) < of_int (?f + 2)" "(of_int (?f - 1) :: rat) < of_int (int h)"
    by simp_all
  then have "int h < ?f + 2" "?f - 1 < int h" by (simp_all only: of_int_less_iff)
  with f0 have "h = nat ?f \<or> h = nat ?f + 1" by linarith
  with assms(2) show ?thesis by (auto simp: nearest_hundredths_def)
qed

lemma runtimeDisplay_exact:
  assumes "binary64 x" and "0 \<le> x" and "x < 2 ^ 53"
  shows "spec_format x (runtimeDisplay eng x)"
proof -
  have eq: "runtimeDisplay eng x = rounded_format x"
    by (rule runtimeDisplay_rounded [OF assms(2,3)])
  consider "x < 1000" | "1000 \<le> x" "x < 60000" | "60000 \<le> x" by linarith
  then show ?thesis
  proof cases
    case 1
    then show ?thesis by (simp add: eq spec_format_def rounded_format_def)
  next
    case 2
    let ?h = "nat (nearest_integer (js_div x 1000 * 100))"
    from 2 have "0 \<le> x / 1000" by simp
    from nearest_hundredths_mem [OF this seconds_hundredths [OF assms(1) 2]]
    have "?h \<in> set (nearest_hundredths (x / 1000))" .
    with 2 show ?thesis
      by (simp add: eq spec_format_def rounded_format_def two_decimals_def)
  next
    case 3
    with minutes_floor [OF assms(1) 3 assms(3)] seconds_nearest [OF assms(1) 3 assms(3)]
    show ?thesis by (simp add: eq spec_format_def rounded_format_def)
  qed
qed

lemma round_half_even_int: "round_half_even (of_int n) = n"
  by (simp add: round_half_even_def)

lemma multiple_binary64:
  assumes "w = of_int R * quantum w"
  shows "binary64 w"
proof (cases "w = 0")
  case True
  then show ?thesis by (simp add: binary64_def fl_def)
next
  case False
  from quantum_pos [of w] have qnz: "quantum w \<noteq> 0" by simp
  from assms have "w / quantum w = of_int R * quantum w / quantum w"
    by (rule arg_cong [where f = "\<lambda>t. t / quantum w"])
  with qnz have "w / quantum w = of_int R" by simp
  with False assms show ?thesis
    by (simp add: binary64_def fl_quantum round_half_even_int)
qed

lemma binary_exponent_bounds:
  assumes "w \<noteq> 0" and "pow2 a \<le> \<bar>w\<bar>" and "\<bar>w\<bar> \<le> pow2 b"
  shows "a \<le> binary_exponent w \<and> binary_exponent w \<le> b"
proof -
  from binary_exponent_less [OF assms(1)] assms(2)
  have "pow2 a < pow2 (binary_exponent w + 1)" by simp
  then have "a < binary_exponent w + 1" by (simp only: pow2_less_iff)
  moreover have "binary_exponent w \<le> b"
  proof (rule ccontr)
    assume "\<not> binary_exponent w \<le> b"
    then have "b < binary_exponent w" by simp
    then have "pow2 b < pow2 (binary_exponent w)" by (simp only: pow2_less_iff)
    with binary_exponent_le [OF assms(1)] assms(3) show False by simp
  qed
  ultimately show ?thesis by simp
qed

lemma fl_binary64:
  assumes "0 \<le> z"
  shows "binary64 (fl z)"
proof (cases "fl z = 0")
  case True
  then show ?thesis by (simp add: binary64_def fl_def)
next
  case False
  then have nz: "z \<noteq> 0" by (auto simp: fl_def)
  with assms have zpos: "0 < z" by simp
  define e where "e = binary_exponent z"
  define w where "w = fl z"
  define R where "R = round_half_even (z / quantum z)"
  have w: "w = of_int R * quantum z" by (simp add: w_def R_def fl_quantum [OF nz])
  from fl_nonneg [OF assms] False have wpos: "0 < w" by (simp add: w_def)
  have ze: "pow2 e \<le> z" "z < pow2 (e + 1)"
    using binary_exponent_le [OF nz] binary_exponent_less [OF nz] zpos by (simp_all add: e_def)
  show ?thesis
  proof (cases "- 1022 \<le> e")
    case True
    then have "max (e - 52) (- 1074) = e - 52" by linarith
    then have q: "quantum z = pow2 (e - 52)" by (simp only: quantum_def e_def)
    have m1: "pow2 e = of_int (2 ^ 52) * quantum z"
      using pow2_diff [of e 52] pow2_nat [of 52] by (simp add: q)
    have "pow2 (e + 1) = pow2 (e + 1 - 53) * pow2 53"
      using pow2_diff [of "e + 1" 53] pow2_pos [of 53] by simp
    then have m2: "pow2 (e + 1) = of_int (2 ^ 53) * quantum z"
      using pow2_nat [of 53] by (simp add: q)
    from fl_ge [OF nz ze(1) m1] have lo: "pow2 e \<le> w" by (simp add: w_def)
    from ze(2) have "z \<le> pow2 (e + 1)" by simp
    from fl_le [OF nz this m2] have hi: "w \<le> pow2 (e + 1)" by (simp add: w_def)
    from wpos have wnz: "w \<noteq> 0" by simp
    from binary_exponent_bounds [OF wnz, of e "e + 1"] lo hi wpos
    have ew: "e \<le> binary_exponent w" "binary_exponent w \<le> e + 1" by simp_all
    show ?thesis
    proof (cases "binary_exponent w = e")
      case same: True
      then have "quantum w = quantum z" by (simp only: quantum_def e_def)
      with w have "w = of_int R * quantum w" by simp
      then show ?thesis unfolding w_def by (rule multiple_binary64)
    next
      case False
      with ew have up: "binary_exponent w = e + 1" by simp
      from binary_exponent_le [OF wnz] wpos up have "pow2 (e + 1) \<le> w" by simp
      with hi have weq: "w = pow2 (e + 1)" by simp
      from True have "max (e + 1 - 52) (- 1074) = e + 1 - 52" by linarith
      with up have qw: "quantum w = pow2 (e + 1 - 52)" by (simp only: quantum_def)
      have "pow2 (e + 1) = of_int (2 ^ 52) * pow2 (e + 1 - 52)"
        using pow2_diff [of "e + 1" 52] pow2_nat [of 52] by simp
      with weq qw have "w = of_int (2 ^ 52) * quantum w" by simp
      then show ?thesis unfolding w_def by (rule multiple_binary64)
    qed
  next
    case False
    then have "max (e - 52) (- 1074) = - 1074" by linarith
    then have q: "quantum z = pow2 (- 1074)" by (simp only: quantum_def e_def)
    have "pow2 (- 1022) = pow2 (- 1022 - (- 1074)) * pow2 (- 1074)"
      using pow2_diff [of "- 1022" "- 1074"] pow2_pos [of "- 1074"] by simp
    then have m: "pow2 (- 1022) = of_int (2 ^ 52) * quantum z"
      by (simp add: q pow2_def [of 52])
    from False have "e + 1 \<le> - 1022" by simp
    then have "pow2 (e + 1) \<le> pow2 (- 1022)" by (rule pow2_mono)
    with ze(2) have "z \<le> pow2 (- 1022)" by simp
    from fl_le [OF nz this m] have hi: "w \<le> pow2 (- 1022)" by (simp add: w_def)
    from wpos have wnz: "w \<noteq> 0" by simp
    from binary_exponent_bounds [OF wnz, of "binary_exponent w" "- 1022"]
      binary_exponent_le [OF wnz] wpos hi
    have "binary_exponent w \<le> - 1022" by simp
    then have "max (binary_exponent w - 52) (- 1074) = - 1074" by linarith
    then have "quantum w = pow2 (- 1074)" by (simp only: quantum_def)
    with w q have "w = of_int R * quantum w" by simp
    then show ?thesis unfolding w_def by (rule multiple_binary64)
  qed
qed

lemma elapsed_binary64: "s \<le> e \<Longrightarrow> binary64 (js_sub e s) \<and> 0 \<le> js_sub e s"
  by (simp add: js_sub_def fl_binary64 fl_nonneg)

lemma binary64_example: "binary64 (3001 / 2)"
proof -
  have "3001 / 2 \<le> of_int (3001 * 2 ^ 40) * pow2 (11 - 52)" by (simp add: pow2_def)
  moreover have "\<bar>3001 / 2 :: rat\<bar> \<le> pow2 11" by (simp add: pow2_def)
  ultimately have "fl (3001 / 2) \<le> of_int (3001 * 2 ^ 40) * pow2 (11 - 52)"
    by (rule fl_le_multiple) simp
  moreover have "of_int (3001 * 2 ^ 40) * pow2 (11 - 52) \<le> (3001 / 2 :: rat)" by (simp add: pow2_def)
  then have "of_int (3001 * 2 ^ 40) * pow2 (11 - 52) \<le> fl (3001 / 2)"
    by (rule fl_ge_multiple) (simp_all add: pow2_def)
  ultimately show ?thesis by (simp add: binary64_def pow2_def)
qed

lemma format_fraction: "runtimeDisplay eng (3001 / 2) = ''1.50s''"
proof -
  have b: "binary64 (3001 / 2)" by (rule binary64_example)
  have "spec_format (3001 / 2) (runtimeDisplay eng (3001 / 2))"
    by (rule runtimeDisplay_exact [OF b]) simp_all
  moreover have "\<lfloor>3001 / 2 / 1000 * 100 :: rat\<rfloor> = 150"
    by (rule floor_unique) simp_all
  then have "nearest_hundredths (3001 / 2 / 1000) = [150]"
    by (simp add: nearest_hundredths_def)
  ultimately show ?thesis
    by (simp add: spec_format_def hundredths_def decimal_small digit_char_def)
qed

text \<open>
  C4. For every duration that is a binary64 value from 0 up to \<open>2\<^sup>5\<^sup>3\<close> milliseconds, whole
  or fractional, the elapsed-time text is the one the specification gives in exact
  arithmetic: below 1000 the nearest integer and \<^verbatim>\<open>ms\<close>; below 60000 the seconds to two
  decimal places and \<^verbatim>\<open>s\<close>; from 60000 on \<open>floor (duration / 60000)\<close>, \<^verbatim>\<open>m\<close>, a space, the
  nearest integer to \<open>(duration mod 60000) / 1000\<close> and \<^verbatim>\<open>s\<close>. The difference of two clock
  readings is such a value. For a whole number of milliseconds the text is the number
  itself with \<^verbatim>\<open>ms\<close>, a nearest hundredth of the seconds with \<^verbatim>\<open>s\<close>, or the integer
  quotient by 60000 with the remainder's seconds rounded half up. The five examples of
  the specification hold.
\<close>

theorem elapsed_time_text:
  "(binary64 x \<and> 0 \<le> x \<and> x < 2 ^ 53 \<longrightarrow> spec_format x (runtimeDisplay eng x)) \<and>
   (t0 \<le> t1 \<longrightarrow> binary64 (js_sub t1 t0) \<and> 0 \<le> js_sub t1 t0) \<and>
   (a < 1000 \<longrightarrow> runtimeDisplay eng (of_nat a) = decimal a @ ''ms'') \<and>
   (1000 \<le> b \<and> b < 60000 \<longrightarrow>
      (\<exists>h. 10 * h \<le> b + 5 \<and> b \<le> 10 * h + 5 \<and>
           runtimeDisplay eng (of_nat b) =
             decimal (h div 100) @ ''.'' @
             [digit_char (h div 10 mod 10), digit_char (h mod 10)] @ ''s'')) \<and>
   (60000 \<le> c \<and> c < 2 ^ 53 \<longrightarrow>
      runtimeDisplay eng (of_nat c) =
        decimal (c div 60000) @ ''m '' @ decimal ((c mod 60000 + 500) div 1000) @ ''s'') \<and>
   runtimeDisplay eng 999 = ''999ms'' \<and>
   runtimeDisplay eng 1000 = ''1.00s'' \<and>
   runtimeDisplay eng 59999 = ''60.00s'' \<and>
   runtimeDisplay eng 60000 = ''1m 0s'' \<and>
   runtimeDisplay eng 125000 = ''2m 5s''"
  using runtimeDisplay_exact [of x eng] elapsed_binary64 [of t0 t1] whole_ms [of a eng]
    whole_seconds [of b eng] whole_minutes [of c eng]
  by (simp only: format_999 format_1000 format_59999 format_60000 format_125000) blast

theorem elapsed_time_text_witness:
  "binary64 (3001 / 2) \<and> (0::rat) \<le> 3001 / 2 \<and> (3001 / 2 :: rat) < 2 ^ 53 \<and>
   spec_format (3001 / 2) (runtimeDisplay some_engine (3001 / 2)) \<and>
   runtimeDisplay some_engine (3001 / 2) = ''1.50s'' \<and>
   (1 / 4 :: rat) \<le> 6003 / 4 \<and>
   binary64 (js_sub (6003 / 4) (1 / 4)) \<and> 0 \<le> js_sub (6003 / 4) (1 / 4) \<and>
   (7::nat) < 1000 \<and>
   runtimeDisplay some_engine (of_nat 7) = decimal 7 @ ''ms'' \<and>
   (1000::nat) \<le> 1005 \<and> (1005::nat) < 60000 \<and>
   (\<exists>h. 10 * h \<le> (1005::nat) + 5 \<and> 1005 \<le> 10 * h + 5 \<and>
        runtimeDisplay some_engine (of_nat 1005) =
          decimal (h div 100) @ ''.'' @
          [digit_char (h div 10 mod 10), digit_char (h mod 10)] @ ''s'') \<and>
   (60000::nat) \<le> 119999 \<and> (119999::nat) < 2 ^ 53 \<and>
   runtimeDisplay some_engine (of_nat 119999) =
     decimal (119999 div 60000) @ ''m '' @ decimal ((119999 mod 60000 + 500) div 1000) @ ''s''"
proof -
  have h0: "binary64 (3001 / 2)" by (rule binary64_example)
  have h1: "(0::rat) \<le> 3001 / 2 \<and> (3001 / 2 :: rat) < 2 ^ 53" by simp
  have h2: "(1 / 4 :: rat) \<le> 6003 / 4" by simp
  have h3: "(7::nat) < 1000" by simp
  have h4: "(1000::nat) \<le> 1005 \<and> (1005::nat) < 60000" by simp
  have h5: "(60000::nat) \<le> 119999 \<and> (119999::nat) < 2 ^ 53" by simp
  have v: "runtimeDisplay some_engine (3001 / 2) = ''1.50s''" by (rule format_fraction)
  from elapsed_time_text [of "3001 / 2" some_engine "1 / 4" "6003 / 4" 7 1005 119999]
    h0 h1 h2 h3 h4 h5 v
  show ?thesis by blast
qed

section \<open>A run of \<open>handleAnalyze\<close>\<close>

lemma try_frame:
  "handleAnalyze_try eng f t c s = Inr s' \<Longrightarrow>
     in_flight s' = in_flight s \<and> isLoading s' = isLoading s \<and> toasts s' = toasts s \<and>
     requests s' = requests s \<and> drugName s' = drugName s"
  by (auto simp: handleAnalyze_try_def push_def Let_def
      split: fetch_result.splits if_splits sum.splits)



lemma handleAnalyze_success:
  assumes "handleAnalyze_try eng (fetched w) (clock_end w)
             \<lparr>submitted = drugName s, startTime = clock_start w\<rparr>
             (s\<lparr>isLoading := True,
                requests := requests s @ [analyze_request (backend_url w) (drugName s)]\<rparr>) = Inr s'"
  shows "handleAnalyze eng w s = s'\<lparr>isLoading := False\<rparr>"
  using assms
  by (simp add: handleAnalyze_def handleAnalyze_dispatch_def handleAnalyze_settle_def Let_def)


lemma optional_prop_property: "optional_prop d name = property d name"
  by (cases d) (simp_all add: optional_prop_def)

text \<open>
  C1, as amended. When the reply has a 2xx status and its body parses to a JSON value other
  than \<^verbatim>\<open>null\<close>, a whole run of \<open>handleAnalyze\<close> stores a result whose compound is the
  submitted name, whose conclusion, rationale, confidence, relevance and tool trace are the
  body's \<^verbatim>\<open>conclusion\<close>, \<^verbatim>\<open>rationale\<close>, \<^verbatim>\<open>confidence\<close>, \<^verbatim>\<open>relevance\<close> and \<^verbatim>\<open>tool_trace\<close>, and
  whose runtime is \<open>runtimeDisplay\<close> of the difference of the two clock readings; and the
  router is sent to \<^verbatim>\<open>/analyze/result\<close>.
\<close>

theorem success_is_stored:
  assumes "fetched w = Resolved r" and "ok r" and "json_result r = Inr data" and "data \<noteq> JNull"
  shows "result (store (handleAnalyze eng w s)) =
           Some \<lparr>compound = drugName s,
                 conclusion = property data ''conclusion'',
                 rationale = property data ''rationale'',
                 runtime = runtimeDisplay eng (js_sub (clock_end w) (clock_start w)),
                 confidence = property data ''confidence'',
                 relevance = property data ''relevance'',
                 toolTrace = property data ''tool_trace''\<rparr> \<and>
         path (handleAnalyze eng w s) = ''/analyze/result''"
proof -
  from assms(4) have rd: "read_prop eng data ''conclusion'' = Inr (property data ''conclusion'')"
    by (cases data) (simp_all add: read_prop_def)
  let ?s0 = "s\<lparr>isLoading := True,
                requests := requests s @ [analyze_request (backend_url w) (drugName s)]\<rparr>"
  obtain s' where t: "handleAnalyze_try eng (fetched w) (clock_end w)
             \<lparr>submitted = drugName s, startTime = clock_start w\<rparr> ?s0 = Inr s'"
    and r: "result (store s') =
           Some \<lparr>compound = drugName s,
                 conclusion = property data ''conclusion'',
                 rationale = property data ''rationale'',
                 runtime = runtimeDisplay eng (js_sub (clock_end w) (clock_start w)),
                 confidence = property data ''confidence'',
                 relevance = property data ''relevance'',
                 toolTrace = property data ''tool_trace''\<rparr>"
    and p: "path s' = ''/analyze/result''"
    using assms(1-3) rd
    by (simp add: handleAnalyze_try_def Let_def push_def setResult_def)
  from handleAnalyze_success [OF t] r p show ?thesis by simp
qed

theorem success_is_stored_witness:
  "fetched (reply 200 (Inr report) offline) = Resolved \<lparr>status = 200, json_result = Inr report\<rparr> \<and>
   ok \<lparr>status = 200, json_result = Inr report\<rparr> \<and>
   report \<noteq> JNull \<and>
   result (store (handleAnalyze some_engine (reply 200 (Inr report) offline) (typed ''JQ1''))) =
     Some \<lparr>compound = ''JQ1'',
           conclusion = Some (JStr ''Reduces fibrosis''),
           rationale = Some (JStr ''BET inhibition''),
           runtime = ''5ms'',
           confidence = Some (JNum 65),
           relevance = Some (JNum 80),
           toolTrace = Some (JArr [JStr ''pubmed_search(JQ1)''])\<rparr> \<and>
   path (handleAnalyze some_engine (reply 200 (Inr report) offline) (typed ''JQ1''))
     = ''/analyze/result''"
proof -
  have h1: "fetched (reply 200 (Inr report) offline)
              = Resolved \<lparr>status = 200, json_result = Inr report\<rparr>"
    by (simp add: reply_def)
  have h2: "ok \<lparr>status = 200, json_result = Inr report\<rparr>"
    by (simp add: ok_def)
  have h3: "json_result \<lparr>status = 200, json_result = Inr report\<rparr> = Inr report"
    by simp
  have h4: "report \<noteq> JNull"
    by (simp add: report_def)
  from h1 h2 h4 success_is_stored [OF h1 h2 h3 h4, of some_engine "typed ''JQ1''"]
  show ?thesis
    by (simp add: report_def typed_def reply_def offline_def AnalyzePage_def elapsed_5)
qed

text \<open>
  C1 as stated fails for the body \<^verbatim>\<open>null\<close>: it parses, the status is 200, but reading
  \<^verbatim>\<open>data.conclusion\<close> throws, so nothing is stored and the router is not called.
\<close>

theorem null_body_counterexample:
  "ok \<lparr>status = 200, json_result = Inr JNull\<rparr> \<and>
   result (store (handleAnalyze some_engine (reply 200 (Inr JNull) offline) (typed ''JQ1'')))
     = None \<and>
   path (handleAnalyze some_engine (reply 200 (Inr JNull) offline) (typed ''JQ1''))
     = ''/analyze'' \<and>
   length (toasts (handleAnalyze some_engine (reply 200 (Inr JNull) offline) (typed ''JQ1'')))
     = 1"
  by (simp add: ok_def handleAnalyze_def handleAnalyze_dispatch_def handleAnalyze_settle_def
      handleAnalyze_try_def read_prop_def reply_def offline_def typed_def AnalyzePage_def
      AnalysisProvider_def Let_def)



text \<open>
  C3, as amended. For a reply whose status is not 2xx: when the body does not parse, or
  parses to a value whose \<^verbatim>\<open>detail\<close> is absent or falsy (the empty string, 0, \<^verbatim>\<open>false\<close>,
  \<^verbatim>\<open>null\<close>), the failure's message is \<^verbatim>\<open>Failed to analyze compound\<close>; when \<^verbatim>\<open>detail\<close> is a
  non-empty string, the message is that string.
\<close>

theorem error_detail_message:
  assumes "\<not> (200 \<le> code \<and> code \<le> 299)"
  shows "failure eng (reply code (Inl x) w) s = Some (ErrorInstance ''Failed to analyze compound'') \<and>
         (\<not> truthy (property d ''detail'') \<longrightarrow>
            failure eng (reply code (Inr d) w) s
              = Some (ErrorInstance ''Failed to analyze compound'')) \<and>
         (property d' ''detail'' = Some (JStr m) \<and> m \<noteq> [] \<longrightarrow>
            failure eng (reply code (Inr d') w) s = Some (ErrorInstance m))"
  using assms
  by (simp add: failure_def reply_def handleAnalyze_try_def ok_def optional_prop_property Let_def)

theorem error_detail_message_witness:
  "\<not> (200 \<le> (429::nat) \<and> (429::nat) \<le> 299) \<and>
   \<not> truthy (property (JObj [(''detail'', JNum 0)]) ''detail'') \<and>
   property (JObj [(''detail'', JStr ''rate limited'')]) ''detail'' = Some (JStr ''rate limited'') \<and>
   ''rate limited'' \<noteq> [] \<and>
   failure some_engine (reply 429 (Inl (ErrorInstance ''Unexpected end of JSON input'')) offline)
      (typed ''JQ1'') = Some (ErrorInstance ''Failed to analyze compound'') \<and>
   failure some_engine (reply 429 (Inr (JObj [(''detail'', JNum 0)])) offline) (typed ''JQ1'')
      = Some (ErrorInstance ''Failed to analyze compound'') \<and>
   failure some_engine (reply 429 (Inr (JObj [(''detail'', JStr ''rate limited'')])) offline)
      (typed ''JQ1'') = Some (ErrorInstance ''rate limited'')"
proof -
  have h1: "\<not> (200 \<le> (429::nat) \<and> (429::nat) \<le> 299)" by simp
  have h2: "\<not> truthy (property (JObj [(''detail'', JNum 0)]) ''detail'')" by simp
  have h3: "property (JObj [(''detail'', JStr ''rate limited'')]) ''detail''
              = Some (JStr ''rate limited'') \<and> ''rate limited'' \<noteq> []" by simp
  from h1 h2 h3
    error_detail_message [OF h1, of some_engine "ErrorInstance ''Unexpected end of JSON input''"
      offline "typed ''JQ1''" "JObj [(''detail'', JNum 0)]"
      "JObj [(''detail'', JStr ''rate limited'')]" "''rate limited''"]
  show ?thesis by simp
qed

text \<open>
  C3 as stated fails for the body \<^verbatim>\<open>{"detail": ""}\<close>: the status is 429, the body has a
  \<^verbatim>\<open>detail\<close> field, and the message is not that field's value but the fallback.
\<close>

theorem empty_detail_counterexample:
  "\<not> ok \<lparr>status = 429, json_result = Inr (JObj [(''detail'', JStr [])])\<rparr> \<and>
   property (JObj [(''detail'', JStr [])]) ''detail'' = Some (JStr []) \<and>
   failure some_engine (reply 429 (Inr (JObj [(''detail'', JStr [])])) offline) (typed ''JQ1'')
     = Some (ErrorInstance ''Failed to analyze compound'')"
  by (simp add: ok_def failure_def reply_def handleAnalyze_try_def optional_prop_def Let_def)

section \<open>The button\<close>

lemma settle_in_flight:
  "i < length (in_flight s) \<Longrightarrow>
   in_flight (handleAnalyze_settle eng f t i s) = take i (in_flight s) @ drop (Suc i) (in_flight s)"
  by (auto simp: handleAnalyze_settle_def Let_def dest: try_frame split: sum.splits)

lemma settle_not_busy:
  "i < length (in_flight s) \<Longrightarrow> \<not> isLoading (handleAnalyze_settle eng f t i s)"
  by (simp add: handleAnalyze_settle_def Let_def)

lemma step_one_in_flight: "one_in_flight s \<Longrightarrow> one_in_flight (step eng base ev s)"
proof (cases ev)
  case (Change v)
  assume "one_in_flight s"
  with Change show ?thesis by (simp add: step_def one_in_flight_def)
next
  case (Click now)
  assume "one_in_flight s"
  with Click show ?thesis
    by (auto simp: step_def one_in_flight_def button_disabled_def handleAnalyze_dispatch_def)
next
  case (Reply i f t)
  assume inv: "one_in_flight s"
  show ?thesis
  proof (cases "i < length (in_flight s)")
    case True
    with inv have "i = 0" and "length (in_flight s) = 1"
      by (auto simp: one_in_flight_def)
    with True Reply settle_in_flight [OF True, of eng f t] settle_not_busy [OF True, of eng f t]
    show ?thesis
      by (simp add: step_def one_in_flight_def)
  next
    case False
    with inv Reply show ?thesis
      by (simp add: step_def handleAnalyze_settle_def)
  qed
qed

lemma run_one_in_flight: "one_in_flight s \<Longrightarrow> one_in_flight (run eng base evs s)"
  unfolding run_def
  by (induction evs arbitrary: s) (simp_all add: step_one_in_flight)

lemma AnalyzePage_one_in_flight: "one_in_flight (AnalyzePage ctx href)"
  by (simp add: one_in_flight_def AnalyzePage_def)

text \<open>
  C5, as amended. While the compound name is empty the button is disabled, and a click
  changes nothing: no request is sent and the busy flag keeps its value. Any other name,
  blank or not, leaves the button enabled when the page is idle, and a click runs
  \<open>handleAnalyze\<close>, which checks nothing: it sends the request with the name as it is and sets
  the busy flag.
\<close>

theorem empty_name_disables_button:
  "(drugName s = [] \<longrightarrow> step eng base (Click now) s = s) \<and>
   (drugName s \<noteq> [] \<and> \<not> isLoading s \<longrightarrow>
      step eng base (Click now) s = handleAnalyze_dispatch base now s) \<and>
   requests (handleAnalyze_dispatch base now s) = requests s @ [analyze_request base (drugName s)] \<and>
   isLoading (handleAnalyze_dispatch base now s)"
  by (simp add: step_def button_disabled_def handleAnalyze_dispatch_def)

theorem empty_name_disables_button_witness:
  "drugName (typed []) = [] \<and>
   step some_engine None (Click 0) (typed []) = typed [] \<and>
   drugName (typed ''  '') \<noteq> [] \<and> \<not> isLoading (typed ''  '') \<and>
   step some_engine None (Click 0) (typed ''  '') = handleAnalyze_dispatch None 0 (typed ''  '') \<and>
   requests (handleAnalyze_dispatch None 0 (typed ''  ''))
     = requests (typed ''  '') @ [analyze_request None (drugName (typed ''  ''))]"
proof -
  have h1: "drugName (typed []) = []"
    by (simp add: typed_def)
  have h2: "drugName (typed ''  '') \<noteq> [] \<and> \<not> isLoading (typed ''  '')"
    by (simp add: typed_def AnalyzePage_def)
  from h1 h2 empty_name_disables_button [of "typed []" some_engine None 0]
    empty_name_disables_button [of "typed ''  ''" some_engine None 0]
  show ?thesis by simp
qed

text \<open>
  C5 as stated fails for the name of two spaces: on an idle page a click on the button
  sends a request and sets the busy flag. It fails for the empty name too when
  \<open>handleAnalyze\<close> itself is invoked: the handler has no check of its own.
\<close>

theorem blank_name_counterexample:
  "requests (step some_engine None (Click 0) (typed ''  '')) =
     [analyze_request None ''  ''] \<and>
   isLoading (step some_engine None (Click 0) (typed ''  '')) \<and>
   \<not> isLoading (typed ''  '') \<and>
   requests (handleAnalyze_dispatch None 0 (typed [])) = [analyze_request None []] \<and>
   isLoading (handleAnalyze_dispatch None 0 (typed [])) \<and>
   \<not> isLoading (typed [])"
  by (simp add: step_def button_disabled_def handleAnalyze_dispatch_def typed_def AnalyzePage_def)

text \<open>
  C6. \<open>handleAnalyze\<close> is a closure of the page whose only use is the \<^verbatim>\<open>onClick\<close> of the
  button, so a submission is invoked by a click. While the busy flag is set the button is
  disabled, and a click changes nothing: no request is sent and the state stays as it is.
  So, whatever is typed and clicked and whatever replies arrive, a page never has more
  than one call waiting for its reply.
\<close>

theorem busy_button_ignores_clicks:
  "(isLoading s \<longrightarrow> step eng base (Click now) s = s) \<and>
   length (in_flight (run eng base evs (AnalyzePage ctx href))) \<le> 1"
proof -
  have "one_in_flight (run eng base evs (AnalyzePage ctx href))"
    by (rule run_one_in_flight [OF AnalyzePage_one_in_flight])
  then show ?thesis
    by (simp add: one_in_flight_def step_def button_disabled_def)
qed

theorem busy_button_ignores_clicks_witness:
  "isLoading (step some_engine None (Click 0) (typed ''JQ1'')) \<and>
   step some_engine None (Click 7) (step some_engine None (Click 0) (typed ''JQ1''))
     = step some_engine None (Click 0) (typed ''JQ1'') \<and>
   length (in_flight (run some_engine None [Change ''JQ1'', Click 0, Click 7]
                        (AnalyzePage AnalysisProvider ''/analyze''))) \<le> 1"
proof -
  have h: "isLoading (step some_engine None (Click 0) (typed ''JQ1''))"
    by (simp add: step_def typed_def AnalyzePage_def button_disabled_def handleAnalyze_dispatch_def)
  from h busy_button_ignores_clicks [of "step some_engine None (Click 0) (typed ''JQ1'')"
      some_engine None 7 "[Change ''JQ1'', Click 0, Click 7]" AnalysisProvider "''/analyze''"]
  show ?thesis by simp
qed

section \<open>The result store and the result page\<close>

text \<open>
  C9. A result written with \<open>setResult\<close> is the result read back from the context,
  whatever its fields hold; in particular for every confidence and relevance from 0 to 100.
\<close>

theorem result_store_roundtrip: "result (setResult r ctx) = Some r"
  by (simp add: setResult_def)

text \<open>
  C10. Outside every \<open>AnalysisProvider\<close>, \<open>useAnalysis\<close> throws an error with the message
  \<^verbatim>\<open>useAnalysis must be used within an AnalysisProvider\<close>; inside one it returns the context
  of the nearest provider and does not throw.
\<close>

theorem useAnalysis_provider:
  "useAnalysis [] = Inl (ErrorInstance ''useAnalysis must be used within an AnalysisProvider'') \<and>
   useAnalysis (ctx # outer) = Inr ctx"
  by (simp add: useAnalysis_def useContext_def)

text \<open>
  C7. When \<open>ResultContent\<close> is rendered while the store is empty, it pushes the path of the
  submit page and renders \<^verbatim>\<open>null\<close>.
\<close>

theorem empty_store_redirects:
  "result ctx = None \<Longrightarrow> ResultContent eng (ctx # outer) href = Inr (None, ''/analyze'')"
  by (simp add: ResultContent_def useAnalysis_def useContext_def)

theorem empty_store_redirects_witness:
  "result AnalysisProvider = None \<and>
   ResultContent some_engine [AnalysisProvider] ''/analyze/result'' = Inr (None, ''/analyze'')"
proof -
  have h: "result AnalysisProvider = None" by (simp add: AnalysisProvider_def)
  from h empty_store_redirects [OF h, of some_engine "[]" "''/analyze/result''"]
  show ?thesis by simp
qed

text \<open>
  C8. \<open>formatToolCall\<close> returns the text \<^verbatim>\<open>No tool call information available.\<close> when the
  trace is absent and when it is the empty array. For a non-empty array it returns a list
  whose items hold exactly the elements of the array, unchanged and in their order (keyed
  by their positions).
\<close>

theorem formatToolCall_renders:
  "formatToolCall None = Plain (JStr ''No tool call information available.'') \<and>
   formatToolCall (Some (JArr [])) = Plain (JStr ''No tool call information available.'') \<and>
   (xs \<noteq> [] \<longrightarrow>
      (case formatToolCall (Some (JArr xs)) of
         Ul items \<Rightarrow> map child items = xs \<and> map key items = [0..<length xs]
       | Plain v \<Rightarrow> False))"
proof -
  have "map child (map (\<lambda>(idx, t). Li idx t) (enumerate 0 xs)) = xs"
    by (simp add: enumerate_eq_zip map_idI split_def o_def)
  moreover have "map key (map (\<lambda>(idx, t). Li idx t) (enumerate 0 xs)) = [0..<length xs]"
    by (simp add: enumerate_eq_zip split_def o_def)
  ultimately show ?thesis
    by (simp add: formatToolCall_def)
qed

theorem formatToolCall_renders_witness:
  "[JStr ''search(JQ1)'', JStr ''fetch(123)''] \<noteq> [] \<and>
   formatToolCall (Some (JArr [JStr ''search(JQ1)'', JStr ''fetch(123)'']))
     = Ul [Li 0 (JStr ''search(JQ1)''), Li 1 (JStr ''fetch(123)'')]"
proof -
  have h: "[JStr ''search(JQ1)'', JStr ''fetch(123)''] \<noteq> []" by simp
  from h formatToolCall_renders [of "[JStr ''search(JQ1)'', JStr ''fetch(123)'']"]
  show ?thesis
    by (simp add: formatToolCall_def enumerate_eq_zip upt_rec)
qed

end
